theory Spec2Isabelle
  imports Complex_Main "HOL-Library.Log_Nat"
begin

section \<open>Python values used by \<^verbatim>\<open>image_resizer.py\<close>\<close>

text \<open>
  Exceptions are values. \<open>ZeroDivisionError\<close> and \<open>OverflowError\<close> are what Python's
  arithmetic raises in \<^verbatim>\<open>calculate_new_size\<close>; \<open>LibraryError\<close> stands for any
  \<^verbatim>\<open>Exception\<close> raised by Pillow or by the operating system (with its message).
  \<open>InvalidImageError\<close> is never raised by the source: it is the error the written
  specification asks for on zero-dimension input and is used by the specification's
  reference algorithm only. What is not an \<^verbatim>\<open>Exception\<close> (a keyboard interrupt, which
  can arrive at any point of a run) is not modelled.
\<close>

datatype py_exception =
    ZeroDivisionError
  | OverflowError
  | LibraryError string
  | InvalidImageError

definition py_bind :: "py_exception + 'a \<Rightarrow> ('a \<Rightarrow> py_exception + 'b) \<Rightarrow> py_exception + 'b" where
  "py_bind m f = (case m of Inl e \<Rightarrow> Inl e | Inr v \<Rightarrow> f v)"

subsection \<open>Python floats: IEEE 754 binary64, round to nearest, ties to even\<close>

text \<open>
  A finite float is the rational number it denotes. \<open>flog2 x\<close> is the binary exponent
  of a positive \<open>x\<close> (the \<open>k\<close> with \<open>2 powi k \<le> x < 2 powi (k + 1)\<close>), computed from the bit
  lengths of numerator and denominator. \<open>binary64 x\<close> rounds \<open>x\<close> to 53 significant
  bits, with the spacing of the subnormal numbers (\<open>2 powi - 1074\<close>) below the normal range
  and no bound above; a result beyond \<open>float_max\<close> is an overflow. The sign of a zero
  is not kept: the resizer never observes it (a division by either zero raises, and
  \<^verbatim>\<open>int\<close> of either is 0).
\<close>

definition flog2 :: "rat \<Rightarrow> int" where
  "flog2 x = (let (p, q) = quotient_of x; k = bitlen p - bitlen q
              in if 2 powi k \<le> x then k else k - 1)"

definition round_half_even :: "rat \<Rightarrow> int" where
  "round_half_even x =
     (let f = \<lfloor>x\<rfloor>; d = x - of_int f
      in if d < 1 / 2 then f else if 1 / 2 < d then f + 1
         else if even f then f else f + 1)"

definition float_exp :: "rat \<Rightarrow> int" where
  "float_exp x = max (flog2 \<bar>x\<bar> - 52) (- 1074)"

definition binary64 :: "rat \<Rightarrow> rat" where
  "binary64 x =
     (if x = 0 then 0
      else sgn x * of_int (round_half_even (\<bar>x\<bar> / 2 powi float_exp x)) * 2 powi float_exp x)"

definition float_max :: rat where
  "float_max = (2 ^ 53 - 1) * 2 ^ 971"

datatype py_float = Finite rat | PosInf | NegInf

definition float_round :: "rat \<Rightarrow> py_float" where
  "float_round x =
     (let r = binary64 x
      in if float_max < r then PosInf else if r < - float_max then NegInf else Finite r)"

text \<open>
  \<^verbatim>\<open>a / b\<close> on two ints: correctly rounded, \<^verbatim>\<open>ZeroDivisionError\<close> on a zero divisor,
  \<^verbatim>\<open>OverflowError\<close> when the quotient is too large for a float.
\<close>

definition int_truediv :: "int \<Rightarrow> int \<Rightarrow> py_exception + rat" where
  "int_truediv a b =
     (if b = 0 then Inl ZeroDivisionError
      else case float_round (of_int a / of_int b) of
             Finite r \<Rightarrow> Inr r
           | _ \<Rightarrow> Inl OverflowError)"

text \<open>The conversion of an int operand in a mixed int/float operation.\<close>

definition float_of_int :: "int \<Rightarrow> py_exception + rat" where
  "float_of_int n =
     (case float_round (of_int n) of Finite r \<Rightarrow> Inr r | _ \<Rightarrow> Inl OverflowError)"

text \<open>Float times float and float by float: an overflow gives an infinity, without raising.\<close>

definition float_mul :: "rat \<Rightarrow> rat \<Rightarrow> py_float" where
  "float_mul a b = float_round (a * b)"

definition float_truediv :: "rat \<Rightarrow> rat \<Rightarrow> py_exception + py_float" where
  "float_truediv a b = (if b = 0 then Inl ZeroDivisionError else Inr (float_round (a / b)))"

text \<open>\<^verbatim>\<open>int(x)\<close> on a float truncates towards zero and raises on an infinity.\<close>

definition int_of_float :: "py_float \<Rightarrow> py_exception + int" where
  "int_of_float x =
     (case x of
        Finite r \<Rightarrow> Inr (if 0 \<le> r then \<lfloor>r\<rfloor> else \<lceil>r\<rceil>)
      | _ \<Rightarrow> Inl OverflowError)"

text \<open>
  The two expressions of the source, \<^verbatim>\<open>int(n / ratio)\<close> and \<^verbatim>\<open>int(n * ratio)\<close>, with an
  int \<open>n\<close> and a float \<open>ratio\<close>: the int is converted first, then the float operation,
  then the truncation.
\<close>

definition int_div_float :: "int \<Rightarrow> rat \<Rightarrow> py_exception + int" where
  "int_div_float n ratio =
     py_bind (float_of_int n) (\<lambda>a. py_bind (float_truediv a ratio) int_of_float)"

definition int_mul_float :: "int \<Rightarrow> rat \<Rightarrow> py_exception + int" where
  "int_mul_float n ratio =
     py_bind (float_of_int n) (\<lambda>a. int_of_float (float_mul a ratio))"

subsection \<open>Strings and paths\<close>

text \<open>
  File names are byte strings; \<^verbatim>\<open>str.lower\<close> and \<^verbatim>\<open>str.upper\<close> act on the ASCII
  letters. \<open>path_suffix\<close> and \<open>path_stem\<close> are \<^verbatim>\<open>pathlib\<close>'s \<^verbatim>\<open>suffix\<close> and
  \<^verbatim>\<open>stem\<close> of a final path component: the name is cut at its last dot, unless that
  dot is the first or the last character.
\<close>

definition lower_char :: "char \<Rightarrow> char" where
  "lower_char c =
     (let n = (of_char c :: nat) in if 65 \<le> n \<and> n \<le> 90 then char_of (n + 32) else c)"

definition upper_char :: "char \<Rightarrow> char" where
  "upper_char c =
     (let n = (of_char c :: nat) in if 97 \<le> n \<and> n \<le> 122 then char_of (n - 32) else c)"

definition str_lower :: "string \<Rightarrow> string" where
  "str_lower s = map lower_char s"

definition str_upper :: "string \<Rightarrow> string" where
  "str_upper s = map upper_char s"

fun rfind :: "char \<Rightarrow> string \<Rightarrow> nat option" where
  "rfind c [] = None"
| "rfind c (x # xs) =
     (case rfind c xs of
        Some i \<Rightarrow> Some (Suc i)
      | None \<Rightarrow> if x = c then Some 0 else None)"

definition path_suffix :: "string \<Rightarrow> string" where
  "path_suffix name =
     (case rfind (CHR ''.'') name of
        Some i \<Rightarrow> if 0 < i \<and> i + 1 < length name then drop i name else []
      | None \<Rightarrow> [])"

definition path_stem :: "string \<Rightarrow> string" where
  "path_stem name =
     (case rfind (CHR ''.'') name of
        Some i \<Rightarrow> if 0 < i \<and> i + 1 < length name then take i name else name
      | None \<Rightarrow> name)"

definition path_join :: "string \<Rightarrow> string \<Rightarrow> string" where
  "path_join folder name = folder @ ''/'' @ name"

section \<open>The \<^verbatim>\<open>ImageResizer\<close> object\<close>

record resizer =
  input_folder :: string
  output_folder :: string
  target_size :: "int \<times> int"
  maintain_aspect_ratio :: bool
  output_format :: "string option"
  quality :: int
  processed :: nat
  failed :: nat
  skipped :: nat

definition SUPPORTED_FORMATS :: "string set" where
  "SUPPORTED_FORMATS = {''.jpg'', ''.jpeg'', ''.png'', ''.gif'', ''.bmp'', ''.tiff'', ''.webp''}"

text \<open>
  \<^verbatim>\<open>__init__\<close>; an argument left at \<^verbatim>\<open>None\<close> is \<open>None\<close>, and \<^verbatim>\<open>x or d\<close> and
  \<^verbatim>\<open>x.lower() if x else None\<close> also take the default on an empty string. The source
  keeps the two folders as \<^verbatim>\<open>pathlib.Path\<close> objects; here a path is the string that
  \<^verbatim>\<open>str\<close> gives for it, so the folders are to be given in pathlib's normal form
  (\<^verbatim>\<open>photos\<close>, not \<^verbatim>\<open>photos/\<close>; \<^verbatim>\<open>.\<close> for the empty path), which \<open>init\<close> does not
  compute. Only the path strings inside calls and log messages depend on it.
\<close>

definition init ::
  "string \<Rightarrow> string option \<Rightarrow> (int \<times> int) option \<Rightarrow> bool \<Rightarrow> string option \<Rightarrow> int \<Rightarrow> resizer" where
  "init input_folder' output_folder' target_size' maintain_aspect_ratio' output_format' quality' =
     \<lparr> input_folder = input_folder',
       output_folder =
         (case output_folder' of
            Some f \<Rightarrow> if f \<noteq> [] then f else path_join input_folder' ''resized''
          | None \<Rightarrow> path_join input_folder' ''resized''),
       target_size = (case target_size' of Some t \<Rightarrow> t | None \<Rightarrow> (800, 600)),
       maintain_aspect_ratio = maintain_aspect_ratio',
       output_format =
         (case output_format' of
            Some f \<Rightarrow> if f \<noteq> [] then Some (str_lower f) else None
          | None \<Rightarrow> None),
       quality = quality',
       processed = 0,
       failed = 0,
       skipped = 0 \<rparr>"

subsection \<open>\<^verbatim>\<open>calculate_new_size\<close>\<close>

definition calculate_new_size :: "resizer \<Rightarrow> int \<times> int \<Rightarrow> py_exception + int \<times> int" where
  "calculate_new_size slf original_size =
     (if \<not> maintain_aspect_ratio slf then Inr (target_size slf)
      else
        let (orig_width, orig_height) = original_size;
            (target_width, target_height) = target_size slf
        in py_bind (int_truediv orig_width orig_height) (\<lambda>orig_ratio.
           py_bind
             (if orig_width > orig_height
              then py_bind (int_div_float target_width orig_ratio)
                     (\<lambda>new_height. Inr (target_width, new_height))
              else py_bind (int_mul_float target_height orig_ratio)
                     (\<lambda>new_width. Inr (new_width, target_height)))
             (\<lambda>(new_width, new_height).
           py_bind
             (if new_height > target_height
              then py_bind (int_mul_float target_height orig_ratio)
                     (\<lambda>new_width. Inr (new_width, target_height))
              else Inr (new_width, new_height))
             (\<lambda>(new_width, new_height).
           if new_width > target_width
           then py_bind (int_div_float target_width orig_ratio)
                  (\<lambda>new_height. Inr (target_width, new_height))
           else Inr (new_width, new_height)))))"


subsection \<open>The specification's reference algorithm \<^verbatim>\<open>computeSize\<close>\<close>

text \<open>
  Written from the words of the specification, section 4.2, on the same floats:
  the ratio \<open>original.w / original.h\<close> (an \<open>InvalidImageError\<close> on zero height), the
  axis chosen by \<open>width \<ge> height\<close>, the two other dimensions derived with \<open>floor\<close>, and
  the two clamp steps in the order given. The hardening to a minimum of 1 that the
  same section asks for is not part of it.
\<close>

definition spec_floor :: "py_float \<Rightarrow> py_exception + int" where
  "spec_floor x = (case x of Finite r \<Rightarrow> Inr \<lfloor>r\<rfloor> | _ \<Rightarrow> Inl OverflowError)"

definition spec_ratio :: "int \<Rightarrow> int \<Rightarrow> py_exception + rat" where
  "spec_ratio w h = (if h = 0 then Inl InvalidImageError else int_truediv w h)"

definition spec_derive_height :: "int \<Rightarrow> rat \<Rightarrow> py_exception + int" where
  "spec_derive_height target_w ratio =
     py_bind (float_of_int target_w) (\<lambda>a. py_bind (float_truediv a ratio) spec_floor)"

definition spec_derive_width :: "int \<Rightarrow> rat \<Rightarrow> py_exception + int" where
  "spec_derive_width target_h ratio =
     py_bind (float_of_int target_h) (\<lambda>a. spec_floor (float_mul a ratio))"

definition computeSize :: "int \<times> int \<Rightarrow> int \<times> int \<Rightarrow> bool \<Rightarrow> py_exception + int \<times> int" where
  "computeSize original target preserveAspect =
     (if \<not> preserveAspect then Inr target
      else
        let (original_w, original_h) = original;
            (target_w, target_h) = target
        in py_bind (spec_ratio original_w original_h) (\<lambda>ratio.
           py_bind
             (if original_w \<ge> original_h
              then py_bind (spec_derive_height target_w ratio) (\<lambda>h. Inr (target_w, h))
              else py_bind (spec_derive_width target_h ratio) (\<lambda>w. Inr (w, target_h)))
             (\<lambda>(w, h).
           py_bind
             (if h > target_h
              then py_bind (spec_derive_width target_h ratio) (\<lambda>w'. Inr (w', target_h))
              else Inr (w, h))
             (\<lambda>(w, h).
           if w > target_w
           then py_bind (spec_derive_height target_w ratio) (\<lambda>h'. Inr (target_w, h'))
           else Inr (w, h)))))"

section \<open>The collaborators: file system, Pillow, logger\<close>

text \<open>
  A directory entry is the \<^verbatim>\<open>Path\<close> that \<^verbatim>\<open>iterdir\<close> yields: its final component and
  what \<^verbatim>\<open>is_file()\<close> answers for it.
\<close>

record dir_entry =
  entry_name :: string
  entry_is_file :: bool

record save_kwargs =
  kw_format :: string
  kw_quality :: "int option"
  kw_optimize :: "bool option"

text \<open>
  The environment gives the outcome of every call that leaves the program. \<open>'w\<close> is
  the state of the file system, \<open>'i\<close> the type of Pillow's image objects. Any of the
  calls may raise; saving and creating a directory change the file system, also when
  they raise.
\<close>

record ('w, 'i) env =
  fs_mkdir :: "'w \<Rightarrow> string \<Rightarrow> (py_exception + unit) \<times> 'w"
  fs_iterdir :: "'w \<Rightarrow> string \<Rightarrow> py_exception + dir_entry list"
  fs_getsize :: "'w \<Rightarrow> string \<Rightarrow> py_exception + nat"
  pil_open :: "'w \<Rightarrow> string \<Rightarrow> py_exception + 'i"
  pil_size :: "'i \<Rightarrow> int \<times> int"
  pil_mode :: "'i \<Rightarrow> string"
  pil_new :: "string \<Rightarrow> int \<times> int \<Rightarrow> int \<times> int \<times> int \<Rightarrow> py_exception + 'i"
  pil_convert :: "'i \<Rightarrow> string \<Rightarrow> py_exception + 'i"
  pil_split_last :: "'i \<Rightarrow> py_exception + 'i"
  pil_paste :: "'i \<Rightarrow> 'i \<Rightarrow> 'i option \<Rightarrow> py_exception + 'i"
  pil_resize :: "'i \<Rightarrow> int \<times> int \<Rightarrow> py_exception + 'i"
  pil_save :: "'w \<Rightarrow> 'i \<Rightarrow> string \<Rightarrow> save_kwargs \<Rightarrow> (py_exception + unit) \<times> 'w"

text \<open>The calls made to Pillow and to \<^verbatim>\<open>os.path.getsize\<close>, in the order they are made.\<close>

datatype 'i pil_call =
    Call_open string
  | Call_new string "int \<times> int" "int \<times> int \<times> int"
  | Call_convert 'i string
  | Call_split 'i
  | Call_paste 'i 'i "'i option"
  | Call_resize 'i "int \<times> int"
  | Call_save 'i string save_kwargs
  | Call_getsize string

datatype log_level = INFO | WARNING | ERROR

text \<open>The logger's messages, by their format string, with the values formatted into them.\<close>

datatype log_message =
    Msg_output_folder_ready string
  | Msg_found nat
  | Msg_processing string int int
  | Msg_resized_to int int
  | Msg_size nat nat
  | Msg_saved_as string
  | Msg_failed_to_process string py_exception
  | Msg_rule
  | Msg_starting
  | Msg_input_folder string
  | Msg_target_size int int
  | Msg_maintain_aspect_ratio bool
  | Msg_output_format string
  | Msg_no_supported_files
  | Msg_progress nat nat
  | Msg_newline_rule
  | Msg_processing_complete
  | Msg_successfully_processed nat
  | Msg_failed nat
  | Msg_skipped nat
  | Msg_output_folder string

text \<open>
  The state of a run: the resizer object, the file system, what has been logged and the
  calls made so far. An action returns a value or raises, and leaves a state either way.
\<close>

record ('w, 'i) run =
  self :: resizer
  world :: 'w
  logged :: "(log_level \<times> log_message) list"
  calls :: "'i pil_call list"

type_synonym ('w, 'i, 'a) action = "('w, 'i) run \<Rightarrow> (py_exception + 'a) \<times> ('w, 'i) run"

definition and_then :: "('w, 'i, 'a) action \<Rightarrow> ('a \<Rightarrow> ('w, 'i, 'b) action) \<Rightarrow> ('w, 'i, 'b) action" where
  "and_then m f = (\<lambda>s. case m s of (Inl e, s') \<Rightarrow> (Inl e, s') | (Inr v, s') \<Rightarrow> f v s')"

definition py_return :: "'a \<Rightarrow> ('w, 'i, 'a) action" where
  "py_return v = (\<lambda>s. (Inr v, s))"

definition pure_step :: "py_exception + 'a \<Rightarrow> ('w, 'i, 'a) action" where
  "pure_step r = (\<lambda>s. (r, s))"

definition logger :: "log_level \<Rightarrow> log_message \<Rightarrow> ('w, 'i, unit) action" where
  "logger level msg = (\<lambda>s. (Inr (), s\<lparr>logged := logged s @ [(level, msg)]\<rparr>))"

definition pil :: "'i pil_call \<Rightarrow> py_exception + 'a \<Rightarrow> ('w, 'i, 'a) action" where
  "pil c r = (\<lambda>s. (r, s\<lparr>calls := calls s @ [c]\<rparr>))"

definition image_open :: "('w, 'i) env \<Rightarrow> string \<Rightarrow> ('w, 'i, 'i) action" where
  "image_open E path = (\<lambda>s. pil (Call_open path) (pil_open E (world s) path) s)"

definition image_save ::
  "('w, 'i) env \<Rightarrow> 'i \<Rightarrow> string \<Rightarrow> save_kwargs \<Rightarrow> ('w, 'i, unit) action" where
  "image_save E img path kwargs =
     (\<lambda>s. case pil_save E (world s) img path kwargs of
             (r, w') \<Rightarrow> pil (Call_save img path kwargs) r (s\<lparr>world := w'\<rparr>))"

definition getsize :: "('w, 'i) env \<Rightarrow> string \<Rightarrow> ('w, 'i, nat) action" where
  "getsize E path = (\<lambda>s. pil (Call_getsize path) (fs_getsize E (world s) path) s)"


section \<open>The methods of \<^verbatim>\<open>ImageResizer\<close>\<close>

subsection \<open>\<^verbatim>\<open>create_output_folder\<close> and \<^verbatim>\<open>get_image_files\<close>\<close>

definition create_output_folder :: "('w, 'i) env \<Rightarrow> ('w, 'i, unit) action" where
  "create_output_folder E =
     and_then
       (\<lambda>s. case fs_mkdir E (world s) (output_folder (self s)) of
               (r, w') \<Rightarrow> (r, s\<lparr>world := w'\<rparr>))
       (\<lambda>_ s. logger INFO (Msg_output_folder_ready (output_folder (self s))) s)"

text \<open>The loop of \<^verbatim>\<open>get_image_files\<close> over the directory listing, appending to the list.\<close>

fun collect_image_files :: "dir_entry list \<Rightarrow> dir_entry list \<Rightarrow> dir_entry list" where
  "collect_image_files [] image_files = image_files"
| "collect_image_files (file_path # rest) image_files =
     collect_image_files rest
       (if entry_is_file file_path
           \<and> str_lower (path_suffix (entry_name file_path)) \<in> SUPPORTED_FORMATS
        then image_files @ [file_path]
        else image_files)"

definition get_image_files :: "('w, 'i) env \<Rightarrow> ('w, 'i, dir_entry list) action" where
  "get_image_files E =
     and_then (\<lambda>s. (fs_iterdir E (world s) (input_folder (self s)), s))
       (\<lambda>listing.
          let image_files = collect_image_files listing []
          in and_then (logger INFO (Msg_found (length image_files)))
               (\<lambda>_. py_return image_files))"

subsection \<open>\<^verbatim>\<open>resize_image\<close>\<close>

text \<open>
  The block under \<^verbatim>\<open>if self.output_format in ['jpg', 'jpeg'] and img.mode in
  ['RGBA', 'LA', 'P']\<close>: a white RGB background of the image's size, the image
  (converted to RGBA when it is a palette image) pasted onto it, with its last band as
  the mask when its mode is RGBA.
\<close>

definition flatten_condition :: "resizer \<Rightarrow> string \<Rightarrow> bool" where
  "flatten_condition slf mode \<longleftrightarrow>
     output_format slf \<in> {Some ''jpg'', Some ''jpeg''} \<and> mode \<in> {''RGBA'', ''LA'', ''P''}"

definition flatten_onto_white :: "('w, 'i) env \<Rightarrow> 'i \<Rightarrow> ('w, 'i, 'i) action" where
  "flatten_onto_white E img =
     and_then (pil (Call_new ''RGB'' (pil_size E img) (255, 255, 255))
                 (pil_new E ''RGB'' (pil_size E img) (255, 255, 255))) (\<lambda>background.
     and_then (if pil_mode E img = ''P''
               then pil (Call_convert img ''RGBA'') (pil_convert E img ''RGBA'')
               else py_return img) (\<lambda>img.
     and_then (if pil_mode E img = ''RGBA''
               then and_then (pil (Call_split img) (pil_split_last E img))
                      (\<lambda>band. py_return (Some band))
               else py_return None) (\<lambda>mask.
     pil (Call_paste background img mask) (pil_paste E background img mask))))"

text \<open>Lines 138 to 140: the format and the name of the output file.\<close>

definition chosen_format :: "resizer \<Rightarrow> dir_entry \<Rightarrow> string" where
  "chosen_format slf image_path =
     (case output_format slf of
        Some f \<Rightarrow> if f \<noteq> [] then f
                  else str_lower (drop 1 (path_suffix (entry_name image_path)))
      | None \<Rightarrow> str_lower (drop 1 (path_suffix (entry_name image_path))))"

definition output_filename :: "resizer \<Rightarrow> dir_entry \<Rightarrow> string" where
  "output_filename slf image_path =
     path_stem (entry_name image_path) @ ''.'' @ chosen_format slf image_path"

definition make_save_kwargs :: "resizer \<Rightarrow> string \<Rightarrow> save_kwargs" where
  "make_save_kwargs slf fmt =
     (if fmt \<in> {''jpg'', ''jpeg''}
      then \<lparr> kw_format = str_upper fmt, kw_quality = Some (quality slf), kw_optimize = Some True \<rparr>
      else \<lparr> kw_format = str_upper fmt, kw_quality = None, kw_optimize = None \<rparr>)"

definition incr_processed :: "('w, 'i, unit) action" where
  "incr_processed = (\<lambda>s. (Inr (), s\<lparr>self := (self s)\<lparr>processed := processed (self s) + 1\<rparr>\<rparr>))"

definition incr_failed :: "('w, 'i, unit) action" where
  "incr_failed = (\<lambda>s. (Inr (), s\<lparr>self := (self s)\<lparr>failed := failed (self s) + 1\<rparr>\<rparr>))"

text \<open>
  Lines 131 to 159, on the image \<open>img\<close> that the steps before have left: the new size,
  the resampling, the save under the output name, the two file sizes for the log, and
  the count of the success.
\<close>

definition resize_and_save ::
  "('w, 'i) env \<Rightarrow> resizer \<Rightarrow> dir_entry \<Rightarrow> 'i \<Rightarrow> ('w, 'i, bool) action" where
  "resize_and_save E slf image_path img =
     and_then (pure_step (calculate_new_size slf (pil_size E img))) (\<lambda>new_size.
     and_then (pil (Call_resize img new_size) (pil_resize E img new_size)) (\<lambda>resized_img.
     let fmt = chosen_format slf image_path;
         output_path = path_join (output_folder slf) (output_filename slf image_path)
     in
     and_then (image_save E resized_img output_path (make_save_kwargs slf fmt)) (\<lambda>_.
     and_then (getsize E (path_join (input_folder slf) (entry_name image_path))) (\<lambda>original_size.
     and_then (getsize E output_path) (\<lambda>new_file_size.
     and_then (logger INFO (Msg_resized_to (fst new_size) (snd new_size))) (\<lambda>_.
     and_then (logger INFO (Msg_size original_size new_file_size)) (\<lambda>_.
     and_then (logger INFO (Msg_saved_as (output_filename slf image_path))) (\<lambda>_.
     and_then incr_processed (\<lambda>_.
     py_return True)))))))))"

text \<open>
  The body of the \<^verbatim>\<open>try\<close>: the image is opened, flattened when the condition holds,
  and then resized and saved. Leaving the \<^verbatim>\<open>with\<close> block closes the image; closing
  and logging are taken not to raise.
\<close>

definition resize_image_try ::
  "('w, 'i) env \<Rightarrow> resizer \<Rightarrow> dir_entry \<Rightarrow> ('w, 'i, bool) action" where
  "resize_image_try E slf image_path =
     and_then (image_open E (path_join (input_folder slf) (entry_name image_path))) (\<lambda>img.
     and_then (logger INFO (Msg_processing (entry_name image_path)
                 (fst (pil_size E img)) (snd (pil_size E img)))) (\<lambda>_.
     and_then (if flatten_condition slf (pil_mode E img)
               then flatten_onto_white E img
               else py_return img) (\<lambda>img.
     resize_and_save E slf image_path img)))"

text \<open>
  \<^verbatim>\<open>resize_image\<close>: the \<^verbatim>\<open>try\<close> with its \<^verbatim>\<open>except Exception\<close> handler. It returns to
  its caller in every case.
\<close>

definition resize_image ::
  "('w, 'i) env \<Rightarrow> dir_entry \<Rightarrow> ('w, 'i) run \<Rightarrow> bool \<times> ('w, 'i) run" where
  "resize_image E image_path s =
     (case resize_image_try E (self s) image_path s of
        (Inr r, s') \<Rightarrow> (r, s')
      | (Inl e, s') \<Rightarrow>
          (False,
           snd (and_then (logger ERROR (Msg_failed_to_process (entry_name image_path) e))
                  (\<lambda>_. incr_failed) s')))"

subsection \<open>\<^verbatim>\<open>print_summary\<close> and \<^verbatim>\<open>process_batch\<close>\<close>

definition print_summary :: "('w, 'i, unit) action" where
  "print_summary =
     and_then (logger INFO Msg_newline_rule) (\<lambda>_.
     and_then (logger INFO Msg_processing_complete) (\<lambda>_.
     and_then (logger INFO Msg_rule) (\<lambda>_.
     and_then (\<lambda>s. logger INFO (Msg_successfully_processed (processed (self s))) s) (\<lambda>_.
     and_then (\<lambda>s. if failed (self s) > 0
                    then logger INFO (Msg_failed (failed (self s))) s
                    else py_return () s) (\<lambda>_.
     and_then (\<lambda>s. if skipped (self s) > 0
                    then logger INFO (Msg_skipped (skipped (self s))) s
                    else py_return () s) (\<lambda>_.
     (\<lambda>s. logger INFO (Msg_output_folder (output_folder (self s))) s)))))))"

text \<open>The \<^verbatim>\<open>for\<close> loop of \<^verbatim>\<open>process_batch\<close>; \<open>i\<close> counts from 1 and \<open>n\<close> is the number of files.\<close>

fun process_images ::
  "('w, 'i) env \<Rightarrow> nat \<Rightarrow> nat \<Rightarrow> dir_entry list \<Rightarrow> ('w, 'i) run \<Rightarrow> ('w, 'i) run" where
  "process_images E n i [] s = s"
| "process_images E n i (image_path # rest) s =
     process_images E n (Suc i) rest
       (snd (resize_image E image_path (snd (logger INFO (Msg_progress i n) s))))"

text \<open>Lines 168 to 175: what \<^verbatim>\<open>process_batch\<close> logs before it starts.\<close>

definition announce :: "('w, 'i, unit) action" where
  "announce =
     and_then (logger INFO Msg_rule) (\<lambda>_.
     and_then (logger INFO Msg_starting) (\<lambda>_.
     and_then (\<lambda>s. logger INFO (Msg_input_folder (input_folder (self s))) s) (\<lambda>_.
     and_then (\<lambda>s. logger INFO (Msg_target_size (fst (target_size (self s)))
                                  (snd (target_size (self s)))) s) (\<lambda>_.
     and_then (\<lambda>s. logger INFO (Msg_maintain_aspect_ratio (maintain_aspect_ratio (self s))) s) (\<lambda>_.
     and_then (\<lambda>s. case output_format (self s) of
                      Some f \<Rightarrow> if f \<noteq> [] then logger INFO (Msg_output_format f) s
                                else py_return () s
                    | None \<Rightarrow> py_return () s) (\<lambda>_.
     logger INFO Msg_rule))))))"

definition process_batch :: "('w, 'i) env \<Rightarrow> ('w, 'i, unit) action" where
  "process_batch E =
     and_then announce (\<lambda>_.
     and_then (create_output_folder E) (\<lambda>_.
     and_then (get_image_files E) (\<lambda>image_files.
     if image_files = []
     then logger WARNING Msg_no_supported_files
     else and_then (\<lambda>s. (Inr (), process_images E (length image_files) 1 image_files s))
            (\<lambda>_. print_summary))))"

text \<open>A run starts from a freshly constructed resizer, with nothing logged or called.\<close>

definition start :: "resizer \<Rightarrow> 'w \<Rightarrow> ('w, 'i) run" where
  "start slf w = \<lparr> self = slf, world = w, logged = [], calls = [] \<rparr>"

subsection \<open>Observations on a run\<close>

text \<open>
  What an action does to the resizer object and which calls it adds; \<open>never_skips\<close>
  says that an action started with \<open>skipped = 0\<close> leaves it 0 and logs no line about
  skipped images. \<open>new_calls s s'\<close> are the calls made between the states \<open>s\<close> and \<open>s'\<close>.
  \<open>in_flatten_block\<close> holds of the calls that only the block under the flattening
  condition makes (lines 124 to 128), whatever their arguments.
\<close>

definition new_calls :: "('w, 'i) run \<Rightarrow> ('w, 'i) run \<Rightarrow> 'i pil_call list" where
  "new_calls s s' = drop (length (calls s)) (calls s')"

definition new_logged :: "('w, 'i) run \<Rightarrow> ('w, 'i) run \<Rightarrow> (log_level \<times> log_message) list" where
  "new_logged s s' = drop (length (logged s)) (logged s')"

fun in_flatten_block :: "'i pil_call \<Rightarrow> bool" where
  "in_flatten_block (Call_new mode sz color) = True"
| "in_flatten_block (Call_convert img mode) = True"
| "in_flatten_block (Call_split img) = True"
| "in_flatten_block (Call_paste background img msk) = True"
| "in_flatten_block c = False"

fun is_open :: "'i pil_call \<Rightarrow> bool" where
  "is_open (Call_open path) = True"
| "is_open c = False"

definition keeps :: "(resizer \<Rightarrow> 'b) \<Rightarrow> ('w, 'i, 'a) action \<Rightarrow> bool" where
  "keeps f m \<longleftrightarrow> (\<forall>s. f (self (snd (m s))) = f (self s))"

definition counts_success :: "('w, 'i, 'a) action \<Rightarrow> bool" where
  "counts_success m \<longleftrightarrow>
     (\<forall>s. self (snd (m s)) =
            (case fst (m s) of
               Inr _ \<Rightarrow> (self s)\<lparr>processed := processed (self s) + 1\<rparr>
             | Inl _ \<Rightarrow> self s))"

definition emits :: "('i pil_call \<Rightarrow> bool) \<Rightarrow> ('w, 'i, 'a) action \<Rightarrow> bool" where
  "emits P m \<longleftrightarrow> (\<forall>s. \<exists>cs. calls (snd (m s)) = calls s @ cs \<and> (\<forall>c\<in>set cs. P c))"

definition never_skips :: "('w, 'i, 'a) action \<Rightarrow> bool" where
  "never_skips m \<longleftrightarrow>
     (\<forall>s. skipped (self s) = 0 \<longrightarrow>
        skipped (self (snd (m s))) = 0
        \<and> (\<exists>ls. logged (snd (m s)) = logged s @ ls \<and> (\<forall>x\<in>set ls. \<forall>k. snd x \<noteq> Msg_skipped k)))"

subsection \<open>Example inputs\<close>

text \<open>
  The resizers that \<^verbatim>\<open>main\<close> builds for \<^verbatim>\<open>photos --size 800 600\<close> and for
  \<^verbatim>\<open>photos --size 800 600 --format jpeg\<close>.
\<close>

definition demo :: resizer where
  "demo = init ''photos'' None (Some (800, 600)) True None 85"

definition demo_jpeg :: resizer where
  "demo_jpeg = init ''photos'' None (Some (800, 600)) True (Some ''jpeg'') 85"

text \<open>
  A small world for examples: the file system is the list of the paths written so far,
  an image is its size and its mode. It answers as Pillow does where the examples
  depend on it:

    \<^item> \<^verbatim>\<open>broken.jpg\<close> cannot be identified; \<^verbatim>\<open>c.PNG\<close> decodes to an RGBA image,
      \<^verbatim>\<open>g.png\<close> to a greyscale image with alpha (mode LA), every other file to an RGB
      image; all are 1920 by 1080;
    \<^item> \<^verbatim>\<open>resize\<close> raises \<^verbatim>\<open>ValueError\<close> unless both components of the size are
      positive;
    \<^item> \<^verbatim>\<open>save\<close> looks the \<^verbatim>\<open>format\<close> argument up among the names of the registered
      writers and raises \<^verbatim>\<open>KeyError\<close> for any other string. The writers are
      registered under \<^verbatim>\<open>BMP\<close>, \<^verbatim>\<open>GIF\<close>, \<^verbatim>\<open>JPEG\<close>, \<^verbatim>\<open>PNG\<close>, \<^verbatim>\<open>TIFF\<close> and \<^verbatim>\<open>WEBP\<close>: \<^verbatim>\<open>JPG\<close>
      and \<^verbatim>\<open>TIF\<close> are file extensions, not format names. The JPEG writer raises
      \<^verbatim>\<open>OSError\<close> for an image with an alpha band or a palette;
    \<^item> \<^verbatim>\<open>paste\<close> leaves the size and the mode of the background as they are.
\<close>

definition pillow_writers :: "string set" where
  "pillow_writers = {''BMP'', ''GIF'', ''JPEG'', ''PNG'', ''TIFF'', ''WEBP''}"

definition demo_env :: "dir_entry list \<Rightarrow> (string list, (int \<times> int) \<times> string) env" where
  "demo_env listing =
     \<lparr> fs_mkdir = (\<lambda>w p. (Inr (), w)),
       fs_iterdir = (\<lambda>w p. Inr listing),
       fs_getsize = (\<lambda>w p. Inr 2048),
       pil_open = (\<lambda>w p. if p = ''photos/broken.jpg''
                          then Inl (LibraryError ''cannot identify image file'')
                          else if p = ''photos/c.PNG'' then Inr ((1920, 1080), ''RGBA'')
                          else if p = ''photos/g.png'' then Inr ((1920, 1080), ''LA'')
                          else Inr ((1920, 1080), ''RGB'')),
       pil_size = fst,
       pil_mode = snd,
       pil_new = (\<lambda>mode size color. Inr (size, mode)),
       pil_convert = (\<lambda>img mode. Inr (fst img, mode)),
       pil_split_last = (\<lambda>img. Inr (fst img, ''L'')),
       pil_paste = (\<lambda>background img mask. Inr background),
       pil_resize = (\<lambda>img size. if 0 < fst size \<and> 0 < snd size then Inr (size, snd img)
                                 else Inl (LibraryError ''ValueError: height and width must be > 0'')),
       pil_save = (\<lambda>w img path kwargs.
                     if kw_format kwargs \<notin> pillow_writers
                     then (Inl (LibraryError (''KeyError: '' @ kw_format kwargs)), w)
                     else if kw_format kwargs = ''JPEG'' \<and> snd img \<in> {''RGBA'', ''LA'', ''P''}
                     then (Inl (LibraryError (''OSError: cannot write mode '' @ snd img @ '' as JPEG'')), w)
                     else (Inr (), w @ [path])) \<rparr>"

definition file_a :: dir_entry where
  "file_a = \<lparr> entry_name = ''a.jpg'', entry_is_file = True \<rparr>"

definition file_b :: dir_entry where
  "file_b = \<lparr> entry_name = ''b.txt'', entry_is_file = True \<rparr>"

definition file_c :: dir_entry where
  "file_c = \<lparr> entry_name = ''c.PNG'', entry_is_file = True \<rparr>"

definition dir_d :: dir_entry where
  "dir_d = \<lparr> entry_name = ''d'', entry_is_file = False \<rparr>"

definition file_broken :: dir_entry where
  "file_broken = \<lparr> entry_name = ''broken.jpg'', entry_is_file = True \<rparr>"

definition file_g :: dir_entry where
  "file_g = \<lparr> entry_name = ''g.png'', entry_is_file = True \<rparr>"

section \<open>Properties of the float model\<close>

text \<open>
  The rounding is monotone and leaves every representable number unchanged, in particular
  every integer up to \<open>2 ^ 53\<close>. Everything below about sizes rests on these two facts.
\<close>

lemma of_int_bitlen_bounds:
  assumes "0 < p"
  shows "(2::rat) powi (bitlen p - 1) \<le> of_int p" and "of_int p < (2::rat) powi bitlen p"
proof -
  have b: "1 \<le> bitlen p" using assms
    by (metis bitlen_eq_zero_iff bitlen_nonneg linorder_not_less int_one_le_iff_zero_less order_le_less)
  have "(2::int) ^ nat (bitlen p - 1) \<le> p" and "p < 2 ^ nat (bitlen p)"
    using bitlen_bounds[OF assms] by auto
  then have "(of_int ((2::int) ^ nat (bitlen p - 1)) :: rat) \<le> of_int p"
    and "(of_int p :: rat) < of_int (2 ^ nat (bitlen p))"
    by (simp_all only: of_int_le_iff of_int_less_iff)
  then show "(2::rat) powi (bitlen p - 1) \<le> of_int p" and "of_int p < (2::rat) powi bitlen p"
    using b by (simp_all add: power_int_nonneg_exp)
qed

lemma flog2_bounds:
  assumes "0 < x"
  shows "2 powi flog2 x \<le> x" and "x < 2 powi (flog2 x + 1)"
proof -
  obtain p q where pq: "quotient_of x = (p, q)" by (cases "quotient_of x")
  have q: "0 < q" using quotient_of_denom_pos[OF pq] .
  have x: "x = of_int p / of_int q" using quotient_of_div[OF pq] .
  have p: "0 < p" using assms q x by (simp add: zero_less_divide_iff)
  define k where "k = bitlen p - bitlen q"
  note bp = of_int_bitlen_bounds[OF p] and bq = of_int_bitlen_bounds[OF q]
  have qpos: "(0::rat) < of_int q" using q by simp
  have "x * of_int q < 2 powi bitlen p" using bp(2) x qpos by simp
  also have "\<dots> = 2 powi (k + 1) * 2 powi (bitlen q - 1)"
    by (simp add: k_def flip: power_int_add)
  also have "\<dots> \<le> 2 powi (k + 1) * of_int q"
    using bq(1) by (simp add: mult_left_mono)
  finally have hi: "x < 2 powi (k + 1)" using qpos by simp
  have "(2::rat) powi (k - 1) * of_int q < 2 powi (k - 1) * 2 powi bitlen q"
    using bq(2) by (simp add: mult_strict_left_mono)
  also have "\<dots> = 2 powi (bitlen p - 1)"
    by (simp add: k_def flip: power_int_add)
  also have "\<dots> \<le> x * of_int q" using bp(1) x qpos by simp
  finally have lo: "2 powi (k - 1) < x" using qpos by simp
  have f: "flog2 x = (if 2 powi k \<le> x then k else k - 1)"
    by (simp add: flog2_def pq k_def Let_def)
  show "2 powi flog2 x \<le> x" using lo by (simp add: f)
  show "x < 2 powi (flog2 x + 1)" using hi by (simp add: f)
qed


lemma flog2_unique:
  assumes "2 powi k \<le> x" and "x < 2 powi (k + 1)"
  shows "flog2 x = k"
proof -
  have "(0::rat) < 2 powi k" by simp
  then have x: "0 < x" using assms(1) by linarith
  note b = flog2_bounds[OF x]
  have "\<not> flog2 x + 1 \<le> k"
  proof
    assume "flog2 x + 1 \<le> k"
    then have "(2::rat) powi (flog2 x + 1) \<le> 2 powi k"
      by (intro power_int_increasing) auto
    with b(2) assms(1) show False by linarith
  qed
  moreover have "\<not> k + 1 \<le> flog2 x"
  proof
    assume "k + 1 \<le> flog2 x"
    then have "(2::rat) powi (k + 1) \<le> 2 powi flog2 x"
      by (intro power_int_increasing) auto
    with b(1) assms(2) show False by linarith
  qed
  ultimately show ?thesis by linarith
qed

lemma flog2_mono:
  assumes "0 < x" and "x \<le> y"
  shows "flog2 x \<le> flog2 y"
proof (rule ccontr)
  assume "\<not> flog2 x \<le> flog2 y"
  then have "flog2 y + 1 \<le> flog2 x" by simp
  then have "(2::rat) powi (flog2 y + 1) \<le> 2 powi flog2 x"
    by (intro power_int_increasing) auto
  moreover have "0 < y" using assms by linarith
  ultimately show False
    using flog2_bounds(1)[OF assms(1)] flog2_bounds(2)[of y] assms(2) by linarith
qed

lemma round_half_even_of_int: "round_half_even (of_int n) = n"
  by (simp add: round_half_even_def)

lemma round_half_even_ge_floor: "\<lfloor>x\<rfloor> \<le> round_half_even x"
  by (simp add: round_half_even_def Let_def)

lemma round_half_even_le_floor: "round_half_even x \<le> \<lfloor>x\<rfloor> + 1"
  by (simp add: round_half_even_def Let_def)

lemma round_half_even_mono:
  assumes "x \<le> y"
  shows "round_half_even x \<le> round_half_even y"
proof (cases "\<lfloor>x\<rfloor> = \<lfloor>y\<rfloor>")
  case True
  then show ?thesis using assms
    by (auto simp add: round_half_even_def Let_def)
next
  case False
  then have "\<lfloor>x\<rfloor> + 1 \<le> \<lfloor>y\<rfloor>" using floor_mono[OF assms] by linarith
  then show ?thesis
    using round_half_even_le_floor[of x] round_half_even_ge_floor[of y] by linarith
qed

lemma round_half_even_le:
  "x \<le> of_int n \<Longrightarrow> round_half_even x \<le> n"
  using round_half_even_mono[of x "of_int n"] by (simp add: round_half_even_of_int)

lemma round_half_even_ge:
  "of_int n \<le> x \<Longrightarrow> n \<le> round_half_even x"
  using round_half_even_mono[of "of_int n" x] by (simp add: round_half_even_of_int)

lemma binary64_pos:
  "0 < x \<Longrightarrow>
   binary64 x = of_int (round_half_even (x / 2 powi float_exp x)) * 2 powi float_exp x"
  by (simp add: binary64_def)

lemma binary64_zero [simp]: "binary64 0 = 0"
  by (simp add: binary64_def)

lemma scaled_lt:
  assumes "0 < x"
  shows "x / 2 powi float_exp x < 2 ^ 53"
proof -
  have "x < 2 powi (flog2 x + 1)" using flog2_bounds(2)[OF assms] .
  also have "(2::rat) powi (flog2 x + 1) \<le> 2 powi (float_exp x + 53)"
    using assms by (intro power_int_increasing) (auto simp: float_exp_def)
  also have "\<dots> = 2 ^ 53 * 2 powi float_exp x"
    by (simp add: power_int_add)
  finally show ?thesis by (simp add: pos_divide_less_eq)
qed

lemma scaled_ge:
  assumes "0 < x" and "- 1074 < float_exp x"
  shows "2 ^ 52 \<le> x / 2 powi float_exp x"
proof -
  have e: "float_exp x = flog2 x - 52" using assms by (auto simp: float_exp_def)
  have "(2::rat) ^ 52 * 2 powi float_exp x = 2 powi flog2 x"
    by (simp add: e power_int_diff)
  also have "\<dots> \<le> x" using flog2_bounds(1)[OF assms(1)] .
  finally show ?thesis by (simp add: pos_le_divide_eq)
qed

lemma binary64_nonneg:
  assumes "0 \<le> x" shows "0 \<le> binary64 x"
proof (cases "x = 0")
  case False
  then have x: "0 < x" using assms by simp
  have "0 \<le> x / 2 powi float_exp x" using x by simp
  then have "0 \<le> round_half_even (x / 2 powi float_exp x)"
    using round_half_even_ge[of 0] by simp
  then show ?thesis by (simp add: binary64_pos[OF x])
qed simp

lemma binary64_mono:
  assumes "0 \<le> x" and "x \<le> y"
  shows "binary64 x \<le> binary64 y"
proof (cases "x = 0")
  case True
  then show ?thesis using binary64_nonneg[of y] assms by simp
next
  case False
  then have x: "0 < x" using assms by simp
  then have y: "0 < y" using assms by linarith
  have le: "float_exp x \<le> float_exp y"
    using flog2_mono[OF x assms(2)] x y by (simp add: float_exp_def)
  show ?thesis
  proof (cases "float_exp x = float_exp y")
    case True
    have "x / 2 powi float_exp y \<le> y / 2 powi float_exp y"
      using assms(2) by (simp add: divide_right_mono)
    then have "round_half_even (x / 2 powi float_exp y) \<le> round_half_even (y / 2 powi float_exp y)"
      by (rule round_half_even_mono)
    then have "(of_int (round_half_even (x / 2 powi float_exp y)) :: rat) * 2 powi float_exp y
        \<le> of_int (round_half_even (y / 2 powi float_exp y)) * 2 powi float_exp y"
      by (intro mult_right_mono) auto
    then show ?thesis by (simp add: binary64_pos[OF x] binary64_pos[OF y] True)
  next
    case False
    then have lt: "float_exp x + 1 \<le> float_exp y" using le by simp
    have "- 1074 \<le> float_exp x" by (simp add: float_exp_def)
    then have big: "- 1074 < float_exp y" using lt by simp
    have "round_half_even (x / 2 powi float_exp x) \<le> 2 ^ 53"
      using round_half_even_le[of "x / 2 powi float_exp x" "2 ^ 53"] scaled_lt[OF x] by simp
    then have "(of_int (round_half_even (x / 2 powi float_exp x)) :: rat) \<le> 2 ^ 53"
      by (metis of_int_le_iff of_int_numeral of_int_power)
    then have "binary64 x \<le> 2 ^ 53 * 2 powi float_exp x"
      by (simp add: binary64_pos[OF x] mult_right_mono)
    also have "\<dots> = 2 ^ 52 * 2 powi (float_exp x + 1)"
      by (simp add: power_int_add)
    also have "\<dots> \<le> 2 ^ 52 * 2 powi float_exp y"
      using lt by (intro mult_left_mono power_int_increasing) auto
    also have "\<dots> \<le> binary64 y"
    proof -
      have "2 ^ 52 \<le> round_half_even (y / 2 powi float_exp y)"
        using round_half_even_ge[of "2 ^ 52" "y / 2 powi float_exp y"] scaled_ge[OF y big] by simp
      then have "(2 ^ 52 :: rat) \<le> of_int (round_half_even (y / 2 powi float_exp y))"
        by (metis of_int_le_iff of_int_numeral of_int_power)
      then show ?thesis by (simp add: binary64_pos[OF y] mult_right_mono)
    qed
    finally show ?thesis .
  qed
qed

lemma binary64_exact_lt:
  assumes "0 \<le> m" and "m < 2 ^ 53" and "- 1074 \<le> e"
  shows "binary64 (of_int m * 2 powi e) = of_int m * 2 powi e"
proof (cases "m = 0")
  case False
  define x :: rat where "x = of_int m * 2 powi e"
  have m: "0 < m" using assms False by simp
  then have x: "0 < x" by (simp add: x_def)
  have "(of_int m :: rat) < 2 ^ 53" using assms(2)
    by (metis of_int_less_iff of_int_numeral of_int_power)
  then have "x < 2 ^ 53 * 2 powi e" by (simp add: x_def)
  also have "\<dots> = 2 powi (e + 53)" by (simp add: power_int_add)
  finally have "x < 2 powi (e + 53)" .
  with flog2_bounds(1)[OF x] have "(2::rat) powi flog2 x < 2 powi (e + 53)" by linarith
  then have "flog2 x < e + 53"
    by (metis linorder_not_less one_le_numeral power_int_increasing)
  then have E: "float_exp x \<le> e" using assms(3) x by (simp add: float_exp_def)
  define d where "d = nat (e - float_exp x)"
  have e: "e = float_exp x + int d" using E by (simp add: d_def)
  have "x = of_int m * 2 powi (float_exp x + int d)"
    using e by (simp add: x_def)
  then have xd: "x = of_int m * 2 ^ d * 2 powi float_exp x"
    by (simp add: power_int_add mult_ac)
  have "x / 2 powi float_exp x = of_int m * 2 ^ d"
    by (subst xd) simp
  also have "\<dots> = of_int (m * 2 ^ d)" by simp
  finally have "round_half_even (x / 2 powi float_exp x) = m * 2 ^ d"
    by (simp only: round_half_even_of_int)
  then have "binary64 x = of_int (m * 2 ^ d) * 2 powi float_exp x"
    by (simp add: binary64_pos[OF x])
  also have "\<dots> = x"
    by (subst (2) xd) simp
  finally show ?thesis by (simp add: x_def)
qed simp

lemma binary64_exact:
  assumes "0 \<le> m" and "m \<le> 2 ^ 53" and "- 1074 \<le> e"
  shows "binary64 (of_int m * 2 powi e) = of_int m * 2 powi e"
proof (cases "m = 2 ^ 53")
  case True
  have "(of_int m :: rat) * 2 powi e = of_int (2 ^ 52) * 2 powi (e + 1)"
    by (simp add: True power_int_add)
  moreover have "binary64 (of_int (2 ^ 52) * 2 powi (e + 1)) = of_int (2 ^ 52) * 2 powi (e + 1)"
    using assms(3) by (intro binary64_exact_lt) auto
  ultimately show ?thesis by simp
next
  case False
  then show ?thesis using assms by (intro binary64_exact_lt) auto
qed

lemma binary64_of_int:
  assumes "0 \<le> n" and "n \<le> 2 ^ 53"
  shows "binary64 (of_int n) = of_int n"
  using binary64_exact[OF assms, of 0] by simp


lemma float_max_ge: "2 ^ 1023 \<le> float_max"
  by (simp add: float_max_def)

lemma binary64_pow2_1023: "binary64 (2 ^ 1023) = 2 ^ 1023"
proof -
  have "binary64 (of_int 1 * 2 powi 1023) = of_int 1 * 2 powi 1023"
    by (intro binary64_exact) auto
  then show ?thesis by simp
qed


subsection \<open>Python operations on non-negative operands\<close>

lemma py_bind_Inl: "py_bind (Inl e) f = Inl e"
  by (simp add: py_bind_def)

lemma py_bind_Inr: "py_bind (Inr v) f = f v"
  by (simp add: py_bind_def)

lemma float_round_nonneg:
  assumes "0 \<le> x"
  shows "float_round x = PosInf \<or> (float_round x = Finite (binary64 x) \<and> 0 \<le> binary64 x)"
  using binary64_nonneg[OF assms] by (auto simp: float_round_def Let_def float_max_def)

lemma float_round_le:
  assumes "0 \<le> x" and "x \<le> 2 ^ 1023"
  shows "float_round x = Finite (binary64 x)"
proof -
  have "binary64 x \<le> binary64 (2 ^ 1023)" using assms by (rule binary64_mono)
  then have "binary64 x \<le> float_max" using float_max_ge binary64_pow2_1023 by linarith
  moreover have "0 \<le> binary64 x" using assms(1) by (rule binary64_nonneg)
  moreover have "0 \<le> float_max" by (simp add: float_max_def)
  ultimately show ?thesis by (auto simp: float_round_def Let_def)
qed

lemma binary64_le_int:
  assumes "0 \<le> x" and "x \<le> of_int k" and "k \<le> 2 ^ 53"
  shows "binary64 x \<le> of_int k"
proof -
  have k: "0 \<le> k" using assms(1,2) by (simp add: of_int_0_le_iff[symmetric] del: of_int_0_le_iff)
  have "binary64 x \<le> binary64 (of_int k)" using assms(1,2) by (rule binary64_mono)
  then show ?thesis using binary64_of_int[OF k assms(3)] by simp
qed

lemma binary64_ge_int:
  assumes "0 \<le> k" and "of_int k \<le> x" and "k \<le> 2 ^ 53"
  shows "of_int k \<le> binary64 x"
proof -
  have "binary64 (of_int k) \<le> binary64 x" using assms(1,2) by (intro binary64_mono) auto
  then show ?thesis using binary64_of_int[OF assms(1,3)] by simp
qed

lemma pow53_le_pow1023: "(2::rat) ^ 53 \<le> 2 ^ 1023"
  by (rule power_increasing) auto

lemma of_int_le_pow53: "k \<le> 2 ^ 53 \<Longrightarrow> (of_int k :: rat) \<le> 2 ^ 53"
  by (metis of_int_le_iff of_int_numeral of_int_power)

lemma float_round_le_int:
  assumes "0 \<le> x" and "x \<le> of_int k" and "k \<le> 2 ^ 53"
  shows "float_round x = Finite (binary64 x)"
proof -
  have "x \<le> 2 ^ 1023" using assms(2) of_int_le_pow53[OF assms(3)] pow53_le_pow1023 by linarith
  then show ?thesis using assms(1) by (intro float_round_le)
qed

lemma float_of_int_exact:
  assumes "0 \<le> n" and "n \<le> 2 ^ 53"
  shows "float_of_int n = Inr (of_int n)"
proof -
  have "float_round (of_int n) = Finite (binary64 (of_int n))"
    using assms by (intro float_round_le_int[of _ n]) auto
  then show ?thesis by (simp add: float_of_int_def binary64_of_int[OF assms])
qed

lemma float_of_int_nonneg:
  assumes "0 \<le> n" and "float_of_int n = Inr a"
  shows "0 \<le> a"
proof -
  have "0 \<le> (of_int n :: rat)" using assms(1) by simp
  from float_round_nonneg[OF this] assms(2) show ?thesis
    by (auto simp: float_of_int_def split: py_float.splits)
qed

lemma int_truediv_nonneg:
  assumes "0 \<le> w" and "0 < h" and "int_truediv w h = Inr r"
  shows "r = binary64 (of_int w / of_int h)" and "0 \<le> r"
proof -
  have "0 \<le> (of_int w / of_int h :: rat)" using assms(1,2) by simp
  from float_round_nonneg[OF this] assms(2,3)
  show "r = binary64 (of_int w / of_int h)" and "0 \<le> r"
    by (auto simp: int_truediv_def split: py_float.splits)
qed

lemma int_truediv_ge_one:
  assumes "0 < h" and "h \<le> w" and "int_truediv w h = Inr r"
  shows "1 \<le> r"
proof -
  have w: "0 \<le> w" using assms by simp
  have "(1::rat) \<le> of_int w / of_int h" using assms(1,2) by (simp add: pos_le_divide_eq)
  then have "of_int 1 \<le> binary64 (of_int w / of_int h)"
    by (intro binary64_ge_int) auto
  then show ?thesis using int_truediv_nonneg(1)[OF w assms(1,3)] by simp
qed

lemma int_truediv_le_one:
  assumes "0 \<le> w" and "0 < h" and "w \<le> h" and "int_truediv w h = Inr r"
  shows "r \<le> 1"
proof -
  have "of_int w / of_int h \<le> (1::rat)" using assms(2,3) by (simp add: pos_divide_le_eq)
  moreover have "0 \<le> (of_int w / of_int h :: rat)" using assms(1,2) by simp
  ultimately have "binary64 (of_int w / of_int h) \<le> of_int 1"
    by (intro binary64_le_int) auto
  then show ?thesis using int_truediv_nonneg(1)[OF assms(1,2,4)] by simp
qed

lemma int_truediv_returns:
  assumes "0 \<le> w" and "0 < h" and "w \<le> 2 ^ 1023 * h"
  shows "\<exists>r. int_truediv w h = Inr r"
proof -
  have "(of_int w :: rat) \<le> of_int (2 ^ 1023 * h)" using assms(3) by (simp only: of_int_le_iff)
  then have "(of_int w / of_int h :: rat) \<le> 2 ^ 1023"
    using assms(2) by (simp add: pos_divide_le_eq)
  moreover have "0 \<le> (of_int w / of_int h :: rat)" using assms(1,2) by simp
  ultimately have "float_round (of_int w / of_int h) = Finite (binary64 (of_int w / of_int h))"
    by (intro float_round_le)
  then show ?thesis using assms(2) by (simp add: int_truediv_def)
qed

lemma int_of_float_finite_nonneg:
  "0 \<le> x \<Longrightarrow> int_of_float (Finite x) = Inr \<lfloor>x\<rfloor>"
  by (simp add: int_of_float_def)

lemma int_mul_float_le:
  assumes "0 \<le> n" and "n \<le> 2 ^ 53" and "0 \<le> r" and "of_int n * r \<le> of_int k" and "k \<le> 2 ^ 53"
  shows "\<exists>b. int_mul_float n r = Inr b \<and> 0 \<le> b \<and> b \<le> k"
proof -
  have x: "0 \<le> of_int n * r" using assms(1,3) by simp
  have fin: "float_round (of_int n * r) = Finite (binary64 (of_int n * r))"
    using x assms(4,5) by (rule float_round_le_int)
  have le: "binary64 (of_int n * r) \<le> of_int k" using x assms(4,5) by (rule binary64_le_int)
  have ge: "0 \<le> binary64 (of_int n * r)" using x by (rule binary64_nonneg)
  have "int_mul_float n r = Inr \<lfloor>binary64 (of_int n * r)\<rfloor>"
    by (simp add: int_mul_float_def float_of_int_exact[OF assms(1,2)] py_bind_def float_mul_def
        fin int_of_float_finite_nonneg[OF ge])
  moreover have "\<lfloor>binary64 (of_int n * r)\<rfloor> \<le> k" using le by (simp add: floor_le_iff)
  moreover have "0 \<le> \<lfloor>binary64 (of_int n * r)\<rfloor>" using ge by simp
  ultimately show ?thesis by simp
qed

lemma int_div_float_le:
  assumes "0 \<le> n" and "n \<le> 2 ^ 53" and "0 < r" and "of_int n / r \<le> of_int k" and "k \<le> 2 ^ 53"
  shows "\<exists>a. int_div_float n r = Inr a \<and> 0 \<le> a \<and> a \<le> k"
proof -
  have x: "0 \<le> of_int n / r" using assms(1,3) by simp
  have fin: "float_round (of_int n / r) = Finite (binary64 (of_int n / r))"
    using x assms(4,5) by (rule float_round_le_int)
  have le: "binary64 (of_int n / r) \<le> of_int k" using x assms(4,5) by (rule binary64_le_int)
  have ge: "0 \<le> binary64 (of_int n / r)" using x by (rule binary64_nonneg)
  have "int_div_float n r = Inr \<lfloor>binary64 (of_int n / r)\<rfloor>"
    using assms(3)
    by (simp add: int_div_float_def float_of_int_exact[OF assms(1,2)] py_bind_def float_truediv_def
        fin int_of_float_finite_nonneg[OF ge])
  moreover have "\<lfloor>binary64 (of_int n / r)\<rfloor> \<le> k" using le by (simp add: floor_le_iff)
  moreover have "0 \<le> \<lfloor>binary64 (of_int n / r)\<rfloor>" using ge by simp
  ultimately show ?thesis by simp
qed

lemma int_mul_float_gt:
  assumes "0 \<le> n" and "n \<le> 2 ^ 53" and "0 \<le> r" and "k \<le> 2 ^ 53"
    and "int_mul_float n r = Inr b" and "k < b"
  shows "of_int k < of_int n * r"
proof (rule ccontr)
  assume "\<not> of_int k < of_int n * r"
  then have "of_int n * r \<le> of_int k" by simp
  from int_mul_float_le[OF assms(1,2,3) this assms(4)] assms(5,6) show False by auto
qed

lemma int_div_float_gt:
  assumes "0 \<le> n" and "n \<le> 2 ^ 53" and "0 < r" and "k \<le> 2 ^ 53"
    and "int_div_float n r = Inr a" and "k < a"
  shows "of_int k < of_int n / r"
proof (rule ccontr)
  assume "\<not> of_int k < of_int n / r"
  then have "of_int n / r \<le> of_int k" by simp
  from int_div_float_le[OF assms(1,2,3) this assms(4)] assms(5,6) show False by auto
qed





lemma float_of_int_error: "float_of_int n = Inl e \<Longrightarrow> e = OverflowError"
  by (auto simp: float_of_int_def split: py_float.splits)

lemma int_of_float_error: "int_of_float x = Inl e \<Longrightarrow> e = OverflowError"
  by (auto simp: int_of_float_def split: py_float.splits)

lemma int_mul_float_error: "int_mul_float n r = Inl e \<Longrightarrow> e = OverflowError"
  by (auto simp: int_mul_float_def py_bind_def split: sum.splits
      dest: float_of_int_error int_of_float_error)

lemma int_div_float_error:
  "int_div_float n r = Inl e \<Longrightarrow> r \<noteq> 0 \<Longrightarrow> e = OverflowError"
  by (auto simp: int_div_float_def py_bind_def float_truediv_def split: sum.splits
      dest: float_of_int_error int_of_float_error)

lemma int_truediv_error:
  "int_truediv w h = Inl e \<Longrightarrow> h \<noteq> 0 \<Longrightarrow> e = OverflowError"
  by (auto simp: int_truediv_def split: py_float.splits)

lemma int_truediv_zero: "int_truediv w 0 = Inl ZeroDivisionError"
  by (simp add: int_truediv_def)

lemma int_mul_float_zero: "int_mul_float n 0 = Inr b \<Longrightarrow> b = 0"
  by (auto simp: int_mul_float_def py_bind_def float_mul_def float_round_def float_max_def
      int_of_float_def split: sum.splits)

subsection \<open>\<^verbatim>\<open>calculate_new_size\<close>\<close>

lemma calculate_new_size_aspect:
  assumes "maintain_aspect_ratio slf" and "target_size slf = (tw, th)"
  shows "calculate_new_size slf (w, h) =
     py_bind (int_truediv w h) (\<lambda>r.
       py_bind
         (if w > h then py_bind (int_div_float tw r) (\<lambda>nh. Inr (tw, nh))
          else py_bind (int_mul_float th r) (\<lambda>nw. Inr (nw, th)))
         (\<lambda>(nw, nh).
       py_bind
         (if nh > th then py_bind (int_mul_float th r) (\<lambda>nw'. Inr (nw', th))
          else Inr (nw, nh))
         (\<lambda>(nw, nh).
       if nw > tw then py_bind (int_div_float tw r) (\<lambda>nh'. Inr (tw, nh'))
       else Inr (nw, nh))))"
  using assms by (simp add: calculate_new_size_def)


lemma calculate_new_size_bounded:
  assumes slf: "maintain_aspect_ratio slf" "target_size slf = (tw, th)"
    and w: "0 \<le> w" and h: "0 < h"
    and tw: "0 < tw" "tw \<le> 2 ^ 53" and th: "0 < th" "th \<le> 2 ^ 53"
    and r: "int_truediv w h = Inr r"
  shows "\<exists>nw nh. calculate_new_size slf (w, h) = Inr (nw, nh)
           \<and> 0 \<le> nw \<and> nw \<le> tw \<and> 0 \<le> nh \<and> nh \<le> th"
proof (cases "w > h")
  case True
  then have r1: "1 \<le> r" using int_truediv_ge_one[OF h _ r] by simp
  then have rpos: "0 < r" by simp
  have "of_int tw / r \<le> of_int tw" using r1 tw(1) by (simp add: pos_divide_le_eq mult_left_mono)
  from int_div_float_le[OF _ tw(2) rpos this tw(2)] tw(1)
  obtain a where a: "int_div_float tw r = Inr a" "0 \<le> a" "a \<le> tw" by auto
  show ?thesis
  proof (cases "a > th")
    case gt: True
    have "of_int th < of_int tw / r"
      using int_div_float_gt[OF _ tw(2) rpos th(2) a(1) gt] tw(1) by simp
    then have "of_int th * r \<le> of_int tw" using rpos by (simp add: pos_less_divide_eq)
    from int_mul_float_le[OF _ th(2) _ this tw(2)] th(1) rpos
    obtain b where b: "int_mul_float th r = Inr b" "0 \<le> b" "b \<le> tw" by auto
    have "calculate_new_size slf (w, h) = Inr (b, th)"
      using True gt a b by (simp add: calculate_new_size_aspect[OF slf] r py_bind_def)
    then show ?thesis using b th(1) by simp
  next
    case le: False
    have "calculate_new_size slf (w, h) = Inr (tw, a)"
      using True le a by (simp add: calculate_new_size_aspect[OF slf] r py_bind_def)
    then show ?thesis using a le tw(1) by simp
  qed
next
  case False
  then have wh: "w \<le> h" by simp
  have r1: "r \<le> 1" using int_truediv_le_one[OF w h wh r] .
  have r0: "0 \<le> r" using int_truediv_nonneg(2)[OF w h r] .
  have "of_int th * r \<le> of_int th" using r1 th(1) by (simp add: mult_left_le)
  from int_mul_float_le[OF _ th(2) r0 this th(2)] th(1)
  obtain b where b: "int_mul_float th r = Inr b" "0 \<le> b" "b \<le> th" by auto
  show ?thesis
  proof (cases "b > tw")
    case gt: True
    have lt: "of_int tw < of_int th * r"
      using int_mul_float_gt[OF _ th(2) r0 tw(2) b(1) gt] th(1) by simp
    have rpos: "0 < r"
    proof (rule ccontr)
      assume "\<not> 0 < r"
      then have "r = 0" using r0 by simp
      then show False using lt tw(1) by simp
    qed
    have "of_int tw / r \<le> of_int th" using lt rpos by (simp add: pos_divide_le_eq)
    from int_div_float_le[OF _ tw(2) rpos this th(2)] tw(1)
    obtain c where c: "int_div_float tw r = Inr c" "0 \<le> c" "c \<le> th" by auto
    have "calculate_new_size slf (w, h) = Inr (tw, c)"
      using False gt b c by (simp add: calculate_new_size_aspect[OF slf] r py_bind_def)
    then show ?thesis using c tw(1) by simp
  next
    case le: False
    have "calculate_new_size slf (w, h) = Inr (b, th)"
      using False le b by (simp add: calculate_new_size_aspect[OF slf] r py_bind_def)
    then show ?thesis using b le th(1) by simp
  qed
qed



lemma calculate_new_size_error:
  assumes slf: "maintain_aspect_ratio slf" "target_size slf = (tw, th)"
    and w: "0 \<le> w" and h: "0 < h" and tw: "0 < tw" and th: "0 < th"
    and res: "calculate_new_size slf (w, h) = Inl e"
  shows "e = OverflowError"
proof (cases "int_truediv w h")
  case (Inl e')
  then have "e = e'" using res by (simp add: calculate_new_size_aspect[OF slf] py_bind_def)
  then show ?thesis using int_truediv_error[OF Inl] h by simp
next
  case (Inr r)
  have r0: "0 \<le> r" using int_truediv_nonneg(2)[OF w h Inr] .
  show ?thesis
  proof (cases "w > h")
    case True
    then have "1 \<le> r" using int_truediv_ge_one[OF h _ Inr] by simp
    then have rn: "r \<noteq> 0" by auto
    show ?thesis
      using res True unfolding calculate_new_size_aspect[OF slf] Inr py_bind_def
      by (auto split: sum.splits if_splits prod.splits
          dest: int_mul_float_error int_div_float_error[OF _ rn])
  next
    case False
    show ?thesis
    proof (cases "r = 0")
      case r: True
      show ?thesis
        using res False tw unfolding calculate_new_size_aspect[OF slf] Inr py_bind_def r
        by (auto split: sum.splits if_splits prod.splits
            dest: int_mul_float_error int_mul_float_zero)
    next
      case rn: False
      show ?thesis
        using res False unfolding calculate_new_size_aspect[OF slf] Inr py_bind_def
        by (auto split: sum.splits if_splits prod.splits
            dest: int_mul_float_error int_div_float_error[OF _ rn])
    qed
  qed
qed

lemma calculate_new_size_zero_height:
  assumes "maintain_aspect_ratio slf"
  shows "calculate_new_size slf (w, 0) = Inl ZeroDivisionError"
  using assms by (simp add: calculate_new_size_def int_truediv_zero py_bind_def split: prod.splits)

subsection \<open>The reference algorithm\<close>

lemma spec_floor_round_nonneg:
  assumes "0 \<le> x"
  shows "spec_floor (float_round x) = int_of_float (float_round x)"
  using float_round_nonneg[OF assms] by (auto simp: spec_floor_def int_of_float_def)

lemma spec_derive_height_eq:
  assumes "0 \<le> n" and "0 \<le> r"
  shows "spec_derive_height n r = int_div_float n r"
proof (cases "float_of_int n")
  case (Inl e)
  then show ?thesis by (simp add: spec_derive_height_def int_div_float_def py_bind_def)
next
  case (Inr a)
  have "0 \<le> a / r" using float_of_int_nonneg[OF assms(1) Inr] assms(2) by simp
  then show ?thesis
    by (simp add: spec_derive_height_def int_div_float_def py_bind_def Inr float_truediv_def
        spec_floor_round_nonneg)
qed

lemma spec_derive_width_eq:
  assumes "0 \<le> n" and "0 \<le> r"
  shows "spec_derive_width n r = int_mul_float n r"
proof (cases "float_of_int n")
  case (Inl e)
  then show ?thesis by (simp add: spec_derive_width_def int_mul_float_def py_bind_def)
next
  case (Inr a)
  have "0 \<le> a * r" using float_of_int_nonneg[OF assms(1) Inr] assms(2) by simp
  then show ?thesis
    by (simp add: spec_derive_width_def int_mul_float_def py_bind_def Inr float_mul_def
        spec_floor_round_nonneg)
qed

lemma computeSize_aspect:
  assumes "h \<noteq> 0" and "0 \<le> w" and "0 < h" and "0 \<le> tw" and "0 \<le> th"
  shows "computeSize (w, h) (tw, th) True =
     py_bind (int_truediv w h) (\<lambda>r.
       py_bind
         (if w \<ge> h then py_bind (int_div_float tw r) (\<lambda>nh. Inr (tw, nh))
          else py_bind (int_mul_float th r) (\<lambda>nw. Inr (nw, th)))
         (\<lambda>(nw, nh).
       py_bind
         (if nh > th then py_bind (int_mul_float th r) (\<lambda>nw'. Inr (nw', th))
          else Inr (nw, nh))
         (\<lambda>(nw, nh).
       if nw > tw then py_bind (int_div_float tw r) (\<lambda>nh'. Inr (tw, nh'))
       else Inr (nw, nh))))"
proof (cases "int_truediv w h")
  case (Inl e)
  then show ?thesis using assms(1) by (simp add: computeSize_def spec_ratio_def py_bind_def)
next
  case (Inr r)
  have r0: "0 \<le> r" using int_truediv_nonneg(2)[OF assms(2,3) Inr] .
  show ?thesis using assms(1)
    by (simp add: computeSize_def spec_ratio_def Inr py_bind_Inr
        spec_derive_height_eq[OF assms(4) r0] spec_derive_width_eq[OF assms(5) r0] cong: if_cong)
qed

lemma int_truediv_self:
  assumes "0 < w" shows "int_truediv w w = Inr 1"
proof -
  have "float_round 1 = Finite (binary64 1)" by (intro float_round_le) auto
  moreover have "binary64 (of_int 1) = of_int 1" by (intro binary64_of_int) auto
  ultimately show ?thesis using assms by (simp add: int_truediv_def)
qed

lemma int_mul_float_one:
  assumes "0 \<le> n" and "n \<le> 2 ^ 53"
  shows "int_mul_float n 1 = Inr n"
proof -
  have "float_round (of_int n) = Finite (binary64 (of_int n))"
    using assms by (intro float_round_le_int[of _ n]) auto
  then show ?thesis
    using assms
    by (simp add: int_mul_float_def float_of_int_exact[OF assms] py_bind_def float_mul_def
        binary64_of_int[OF assms] int_of_float_def)
qed

lemma int_div_float_one:
  assumes "0 \<le> n" and "n \<le> 2 ^ 53"
  shows "int_div_float n 1 = Inr n"
proof -
  have "float_round (of_int n) = Finite (binary64 (of_int n))"
    using assms by (intro float_round_le_int[of _ n]) auto
  then show ?thesis
    using assms
    by (simp add: int_div_float_def float_of_int_exact[OF assms] py_bind_def float_truediv_def
        binary64_of_int[OF assms] int_of_float_def)
qed

lemma calculate_new_size_refines:
  assumes slf: "maintain_aspect_ratio slf" "target_size slf = (tw, th)"
    and w: "0 < w" and h: "0 < h" and tw: "0 < tw" and th: "0 < th"
    and sq: "w = h \<longrightarrow> tw \<le> 2 ^ 53 \<and> th \<le> 2 ^ 53"
  shows "calculate_new_size slf (w, h) = computeSize (w, h) (tw, th) True"
proof (cases "w = h")
  case False
  then have "(h \<le> w) = (h < w)" by auto
  then show ?thesis
    using w h tw th by (simp add: calculate_new_size_aspect[OF slf] computeSize_aspect)
next
  case True
  then have b: "tw \<le> 2 ^ 53" "th \<le> 2 ^ 53" using sq by simp_all
  have tw0: "0 \<le> tw" and th0: "0 \<le> th" using tw th by simp_all
  note one = int_mul_float_one[OF th0 b(2)] int_div_float_one[OF tw0 b(1)]
  show ?thesis
    using h tw th unfolding True
    by (simp add: calculate_new_size_aspect[OF slf] computeSize_aspect int_truediv_self[OF h]
        py_bind_def one)
qed


lemma calculate_new_size_returns:
  assumes slf: "maintain_aspect_ratio slf" "target_size slf = (tw, th)"
    and w: "0 \<le> w" and h: "0 < h" and wh: "w \<le> 2 ^ 1023 * h"
    and tw: "0 < tw" "tw \<le> 2 ^ 53" and th: "0 < th" "th \<le> 2 ^ 53"
  shows "\<exists>nw nh. calculate_new_size slf (w, h) = Inr (nw, nh)
           \<and> 0 \<le> nw \<and> nw \<le> tw \<and> 0 \<le> nh \<and> nh \<le> th"
proof -
  obtain r where "int_truediv w h = Inr r" using int_truediv_returns[OF w h wh] by blast
  then show ?thesis by (rule calculate_new_size_bounded[OF slf w h tw th])
qed

lemma calculate_new_size_within:
  assumes slf: "maintain_aspect_ratio slf" "target_size slf = (tw, th)"
    and w: "0 \<le> w" and h: "0 < h"
    and tw: "0 < tw" "tw \<le> 2 ^ 53" and th: "0 < th" "th \<le> 2 ^ 53"
    and res: "calculate_new_size slf (w, h) = Inr (nw, nh)"
  shows "nw \<le> tw \<and> nh \<le> th"
proof -
  obtain r where r: "int_truediv w h = Inr r"
    using res unfolding calculate_new_size_aspect[OF slf] py_bind_def
    by (auto split: sum.splits)
  from calculate_new_size_bounded[OF slf w h tw th r] res show ?thesis by auto
qed

lemma int_truediv_overflow: "int_truediv (2 ^ 1024) 1 = Inl OverflowError"
proof -
  have "binary64 (of_int 1 * 2 powi 1024) = of_int 1 * 2 powi 1024"
    by (intro binary64_exact) auto
  then have "binary64 (2 ^ 1024) = 2 ^ 1024" by simp
  moreover have "float_max < 2 ^ 1024" by (simp add: float_max_def)
  ultimately show ?thesis by (simp add: int_truediv_def float_round_def)
qed


subsection \<open>Evaluating the float operations\<close>

lemma int_truediv_eval:
  assumes "0 \<le> w" and "0 < h" and "w \<le> 2 ^ 1023 * h"
  shows "int_truediv w h = Inr (binary64 (of_int w / of_int h))"
  using int_truediv_returns[OF assms] int_truediv_nonneg(1)[OF assms(1,2)] by auto

lemma float_of_int_eval:
  assumes "0 \<le> n" and "n \<le> 2 ^ 1023"
  shows "float_of_int n = Inr (binary64 (of_int n))"
proof -
  have "(of_int n :: rat) \<le> of_int (2 ^ 1023)" using assms(2) by (simp only: of_int_le_iff)
  then have "float_round (of_int n) = Finite (binary64 (of_int n))"
    using assms(1) by (intro float_round_le) auto
  then show ?thesis by (simp add: float_of_int_def)
qed

lemma int_mul_float_eval:
  assumes "0 \<le> n" and "n \<le> 2 ^ 1023" and "0 \<le> r" and "binary64 (of_int n) * r \<le> 2 ^ 1023"
  shows "int_mul_float n r = Inr \<lfloor>binary64 (binary64 (of_int n) * r)\<rfloor>"
proof -
  have a: "0 \<le> binary64 (of_int n)" using assms(1) by (intro binary64_nonneg) auto
  then have x: "0 \<le> binary64 (of_int n) * r" using assms(3) by simp
  have "float_round (binary64 (of_int n) * r) = Finite (binary64 (binary64 (of_int n) * r))"
    using x assms(4) by (rule float_round_le)
  then show ?thesis
    using binary64_nonneg[OF x]
    by (simp add: int_mul_float_def float_of_int_eval[OF assms(1,2)] py_bind_Inr float_mul_def
        int_of_float_def)
qed

lemma int_div_float_eval:
  assumes "0 \<le> n" and "n \<le> 2 ^ 1023" and "0 < r" and "binary64 (of_int n) / r \<le> 2 ^ 1023"
  shows "int_div_float n r = Inr \<lfloor>binary64 (binary64 (of_int n) / r)\<rfloor>"
proof -
  have a: "0 \<le> binary64 (of_int n)" using assms(1) by (intro binary64_nonneg) auto
  then have x: "0 \<le> binary64 (of_int n) / r" using assms(3) by simp
  have "float_round (binary64 (of_int n) / r) = Finite (binary64 (binary64 (of_int n) / r))"
    using x assms(4) by (rule float_round_le)
  then show ?thesis
    using binary64_nonneg[OF x] assms(3)
    by (simp add: int_div_float_def float_of_int_eval[OF assms(1,2)] py_bind_Inr float_truediv_def
        int_of_float_def)
qed

lemma demo_fields:
  "maintain_aspect_ratio demo" "target_size demo = (800, 600)"
  by (simp_all add: demo_def init_def)

lemma binary64_1920_1080: "binary64 (1920 / 1080) = 2001599834386887 / 1125899906842624"
  by code_simp

lemma binary64_800: "binary64 800 = 800"
  by code_simp

lemma floor_800_ratio: "\<lfloor>binary64 (800 / (2001599834386887 / 1125899906842624))\<rfloor> = 450"
  by code_simp

lemma calculate_1920_1080:
  assumes "maintain_aspect_ratio slf" and "target_size slf = (800, 600)"
  shows "calculate_new_size slf (1920, 1080) = Inr (800, 450)"
proof -
  have "int_truediv 1920 1080 = Inr (binary64 (of_int 1920 / of_int 1080))"
    by (rule int_truediv_eval) simp_all
  then have r: "int_truediv 1920 1080 = Inr (2001599834386887 / 1125899906842624)"
    by (simp only: of_int_numeral binary64_1920_1080)
  have "int_div_float 800 (2001599834386887 / 1125899906842624)
      = Inr \<lfloor>binary64 (binary64 (of_int 800) / (2001599834386887 / 1125899906842624))\<rfloor>"
    by (rule int_div_float_eval) (simp_all add: binary64_800)
  then have d: "int_div_float 800 (2001599834386887 / 1125899906842624) = Inr 450"
    by (simp only: of_int_numeral binary64_800 floor_800_ratio)
  show ?thesis
    by (simp add: calculate_new_size_aspect[OF assms] r d py_bind_Inr)
qed




lemma binary64_above_2_53: "binary64 9007199254740995 = 9007199254740996"
  by code_simp

lemma binary64_9007199254740996: "binary64 9007199254740996 = 9007199254740996"
  by code_simp

lemma int_mul_float_above_2_53: "int_mul_float 9007199254740995 1 = Inr 9007199254740996"
proof -
  have "int_mul_float 9007199254740995 1
      = Inr \<lfloor>binary64 (binary64 (of_int 9007199254740995) * 1)\<rfloor>"
    by (rule int_mul_float_eval) (simp_all add: binary64_above_2_53)
  then show ?thesis
    by (simp only: of_int_numeral binary64_above_2_53 mult_1_right binary64_9007199254740996
        floor_numeral)
qed

lemma int_div_float_above_2_53: "int_div_float 9007199254740995 1 = Inr 9007199254740996"
proof -
  have "int_div_float 9007199254740995 1
      = Inr \<lfloor>binary64 (binary64 (of_int 9007199254740995) / 1)\<rfloor>"
    by (rule int_div_float_eval) (simp_all add: binary64_above_2_53)
  then show ?thesis
    by (simp only: of_int_numeral binary64_above_2_53 div_by_1 binary64_9007199254740996
        floor_numeral)
qed


lemma binary64_2_53_1: "binary64 9007199254740993 = 9007199254740992"
  by code_simp

lemma binary64_2_53: "binary64 9007199254740992 = 9007199254740992"
  by code_simp

lemma int_mul_float_2_53_1: "int_mul_float 9007199254740993 1 = Inr 9007199254740992"
proof -
  have "int_mul_float 9007199254740993 1
      = Inr \<lfloor>binary64 (binary64 (of_int 9007199254740993) * 1)\<rfloor>"
    by (rule int_mul_float_eval) (simp_all add: binary64_2_53_1)
  then show ?thesis
    by (simp only: of_int_numeral binary64_2_53_1 mult_1_right binary64_2_53 floor_numeral)
qed

lemma int_div_float_2_53_1: "int_div_float 9007199254740993 1 = Inr 9007199254740992"
proof -
  have "int_div_float 9007199254740993 1
      = Inr \<lfloor>binary64 (binary64 (of_int 9007199254740993) / 1)\<rfloor>"
    by (rule int_div_float_eval) (simp_all add: binary64_2_53_1)
  then show ?thesis
    by (simp only: of_int_numeral binary64_2_53_1 div_by_1 binary64_2_53 floor_numeral)
qed

section \<open>The size calculation\<close>




text \<open>
  Where both components of the target are at most \<open>2 ^ 53\<close>, and so are floats, the two
  clamps of lines 97 to 103 keep a returned size within the target; and a size is
  returned whenever \<open>w \<le> 2 ^ 1023 * h\<close>.
\<close>

lemma calculate_new_size_within_target:
  assumes "maintain_aspect_ratio slf" and "target_size slf = (tw, th)"
    and "0 < w" and "0 < h" and "0 < tw" and "tw \<le> 2 ^ 53" and "0 < th" and "th \<le> 2 ^ 53"
  shows "(w \<le> 2 ^ 1023 * h \<longrightarrow> (\<exists>nw nh. calculate_new_size slf (w, h) = Inr (nw, nh)))
       \<and> (\<forall>nw nh. calculate_new_size slf (w, h) = Inr (nw, nh) \<longrightarrow> nw \<le> tw \<and> nh \<le> th)"
proof (intro conjI allI impI)
  have w: "0 \<le> w" using assms(3) by simp
  {
    assume "w \<le> 2 ^ 1023 * h"
    from calculate_new_size_returns[OF assms(1,2) w assms(4) this assms(5-8)]
    show "\<exists>nw nh. calculate_new_size slf (w, h) = Inr (nw, nh)" by blast
  }
  fix nw nh
  assume "calculate_new_size slf (w, h) = Inr (nw, nh)"
  from calculate_new_size_within[OF assms(1,2) w assms(4-8) this]
  show "nw \<le> tw" and "nh \<le> th" by simp_all
qed

text \<open>
  C2: for a positive original and a positive target, the size returned with the aspect
  ratio kept is to be at most the target in width and in height; the comment at line 97
  of the source says the same of its two clamps (\<^verbatim>\<open># Ensure dimensions don't exceed
  target\<close>). The source does not keep to it for every target: the second clamp, lines 101
  to 103, computes the height anew as \<^verbatim>\<open>int(target_width / orig_ratio)\<close> and does not
  compare it with the target height again. For a square original and the target
  \<open>(2 ^ 53 + 3, 2 ^ 53 + 3)\<close> the first branch gives the width
  \<^verbatim>\<open>int(target_height * 1.0)\<close> \<open>= 2 ^ 53 + 4\<close>, the second clamp sets the width to the
  target width and the height to \<^verbatim>\<open>int(target_width / 1.0)\<close> \<open>= 2 ^ 53 + 4\<close>, one above
  the target height.
\<close>

theorem calculate_new_size_exceeds_target:
  "calculate_new_size (demo\<lparr>target_size := (9007199254740995, 9007199254740995)\<rparr>) (1, 1)
     = Inr (9007199254740995, 9007199254740996)"
proof -
  have f: "maintain_aspect_ratio (demo\<lparr>target_size := (9007199254740995, 9007199254740995)\<rparr>)"
    "target_size (demo\<lparr>target_size := (9007199254740995, 9007199254740995)\<rparr>)
       = (9007199254740995, 9007199254740995)"
    by (simp_all add: demo_fields)
  show ?thesis
    by (simp add: calculate_new_size_aspect[OF f] int_truediv_self py_bind_Inr
        int_mul_float_above_2_53 int_div_float_above_2_53)
qed




text \<open>
  C8 (as amended): for an original with non-negative width and height and a positive
  target, with the aspect ratio kept, \<^verbatim>\<open>ZeroDivisionError\<close> is raised if and only if the
  original height is 0. With a positive height the only exception left is
  \<^verbatim>\<open>OverflowError\<close>, and a size is returned whenever \<open>w \<le> 2 ^ 1023 * h\<close> and both
  target components are at most \<open>2 ^ 53\<close>. It does not return for every positive height:
  the original \<open>(2 ^ 1024, 1)\<close> raises \<^verbatim>\<open>OverflowError\<close> in the division.
\<close>

theorem calculate_new_size_zero_division_iff:
  assumes "maintain_aspect_ratio slf" and "target_size slf = (tw, th)"
    and "0 \<le> w" and "0 \<le> h" and "0 < tw" and "0 < th"
  shows "(calculate_new_size slf (w, h) = Inl ZeroDivisionError \<longleftrightarrow> h = 0)
       \<and> (0 < h \<longrightarrow> (\<forall>e. calculate_new_size slf (w, h) = Inl e \<longrightarrow> e = OverflowError))
       \<and> (0 < h \<and> w \<le> 2 ^ 1023 * h \<and> tw \<le> 2 ^ 53 \<and> th \<le> 2 ^ 53 \<longrightarrow>
            (\<exists>nw nh. calculate_new_size slf (w, h) = Inr (nw, nh)))"
proof (intro conjI allI impI iffI)
  assume z: "calculate_new_size slf (w, h) = Inl ZeroDivisionError"
  show "h = 0"
  proof (rule ccontr)
    assume "h \<noteq> 0"
    then have "0 < h" using assms(4) by simp
    from calculate_new_size_error[OF assms(1,2,3) this assms(5,6) z] show False by simp
  qed
next
  assume "h = 0"
  then show "calculate_new_size slf (w, h) = Inl ZeroDivisionError"
    using calculate_new_size_zero_height[OF assms(1)] by simp
next
  fix e
  assume "0 < h" and "calculate_new_size slf (w, h) = Inl e"
  then show "e = OverflowError"
    by (rule calculate_new_size_error[OF assms(1,2,3) _ assms(5,6)])
next
  assume b: "0 < h \<and> w \<le> 2 ^ 1023 * h \<and> tw \<le> 2 ^ 53 \<and> th \<le> 2 ^ 53"
  from calculate_new_size_returns[OF assms(1,2,3) _ _ assms(5) _ assms(6)] b
  show "\<exists>nw nh. calculate_new_size slf (w, h) = Inr (nw, nh)" by blast
qed

theorem calculate_new_size_zero_division_iff_witness:
  "maintain_aspect_ratio demo \<and> target_size demo = (800, 600)
   \<and> calculate_new_size demo (1920, 0) = Inl ZeroDivisionError
   \<and> calculate_new_size demo (0, 1080) \<noteq> Inl ZeroDivisionError
   \<and> (\<exists>nw nh. calculate_new_size demo (0, 1080) = Inr (nw, nh))"
proof -
  have "calculate_new_size demo (1920, 0) = Inl ZeroDivisionError"
    using calculate_new_size_zero_division_iff[OF demo_fields, of 1920 0] by simp
  moreover have "calculate_new_size demo (0, 1080) \<noteq> Inl ZeroDivisionError
      \<and> (\<exists>nw nh. calculate_new_size demo (0, 1080) = Inr (nw, nh))"
    using calculate_new_size_zero_division_iff[OF demo_fields, of 0 1080] by simp
  ultimately show ?thesis using demo_fields by simp
qed

theorem calculate_new_size_overflow:
  "calculate_new_size demo (2 ^ 1024, 1) = Inl OverflowError"
  by (simp only: calculate_new_size_aspect[OF demo_fields] int_truediv_overflow py_bind_Inl)

text \<open>
  C1 (as amended): for a positive original and a positive target, \<^verbatim>\<open>calculate_new_size\<close>
  gives what the reference algorithm \<open>computeSize\<close> gives, result or exception, provided
  that for a square original both target components are at most \<open>2 ^ 53\<close>. The source
  tests \<^verbatim>\<open>orig_width > orig_height\<close> where the reference tests \<open>width \<ge> height\<close>, so a
  square original takes the other branch; the two clamp steps bring both to the same
  size as long as the target components are floats. For the square original \<open>(1, 1)\<close>
  and the target \<open>(2 ^ 53 + 1, 2 ^ 53 + 1)\<close> they differ.
\<close>

theorem calculate_new_size_refines_computeSize:
  assumes "target_size slf = (tw, th)"
    and "0 < w" and "0 < h" and "0 < tw" and "0 < th"
    and "w = h \<longrightarrow> tw \<le> 2 ^ 53 \<and> th \<le> 2 ^ 53"
  shows "calculate_new_size slf (w, h) = computeSize (w, h) (tw, th) (maintain_aspect_ratio slf)"
proof (cases "maintain_aspect_ratio slf")
  case True
  then show ?thesis
    using calculate_new_size_refines[OF True assms] by simp
next
  case False
  then show ?thesis using assms(1) by (simp add: calculate_new_size_def computeSize_def)
qed

theorem calculate_new_size_refines_computeSize_witness:
  "target_size demo = (800, 600) \<and> maintain_aspect_ratio demo
   \<and> calculate_new_size demo (500, 500) = Inr (600, 600)
   \<and> computeSize (500, 500) (800, 600) True = Inr (600, 600)"
proof -
  have c: "calculate_new_size demo (500, 500) = Inr (600, 600)"
    by (simp add: calculate_new_size_aspect[OF demo_fields] int_truediv_self py_bind_Inr
        int_mul_float_one)
  have "calculate_new_size demo (500, 500) = computeSize (500, 500) (800, 600) True"
    using calculate_new_size_refines_computeSize[OF demo_fields(2), of 500 500] demo_fields(1)
    by simp
  with c show ?thesis using demo_fields by simp
qed

theorem calculate_new_size_differs_from_computeSize:
  "calculate_new_size (demo\<lparr>target_size := (9007199254740993, 9007199254740993)\<rparr>) (1, 1)
     = Inr (9007199254740992, 9007199254740993)
   \<and> computeSize (1, 1) (9007199254740993, 9007199254740993) True
     = Inr (9007199254740993, 9007199254740992)"
proof -
  have f: "maintain_aspect_ratio (demo\<lparr>target_size := (9007199254740993, 9007199254740993)\<rparr>)"
    "target_size (demo\<lparr>target_size := (9007199254740993, 9007199254740993)\<rparr>)
       = (9007199254740993, 9007199254740993)"
    by (simp_all add: demo_fields)
  have "calculate_new_size (demo\<lparr>target_size := (9007199254740993, 9007199254740993)\<rparr>) (1, 1)
     = Inr (9007199254740992, 9007199254740993)"
    by (simp add: calculate_new_size_aspect[OF f] int_truediv_self py_bind_Inr
        int_mul_float_2_53_1 int_div_float_2_53_1)
  moreover have "computeSize (1, 1) (9007199254740993, 9007199254740993) True
     = Inr (9007199254740993, 9007199254740992)"
    by (simp add: computeSize_aspect int_truediv_self py_bind_Inr
        int_mul_float_2_53_1 int_div_float_2_53_1)
  ultimately show ?thesis by simp
qed

section \<open>File names and the directory listing\<close>

lemma rfind_Some:
  "rfind c xs = Some i \<Longrightarrow> i < length xs \<and> xs ! i = c \<and> c \<notin> set (drop (Suc i) xs)"
proof (induction xs arbitrary: i)
  case Nil
  then show ?case by simp
next
  case (Cons x xs)
  show ?case
  proof (cases "rfind c xs")
    case None
    have "c \<notin> set xs"
      using None by (induction xs) (auto split: option.splits if_splits)
    then show ?thesis using Cons.prems None by (auto split: if_splits)
  next
    case (Some j)
    then show ?thesis using Cons.prems Cons.IH[OF Some] by auto
  qed
qed

lemma rfind_None: "rfind c xs = None \<longleftrightarrow> c \<notin> set xs"
  by (induction xs) (auto split: option.splits if_splits)

lemma rfind_append: "c \<notin> set ys \<Longrightarrow> rfind c (xs @ c # ys) = Some (length xs)"
proof (induction xs)
  case Nil
  then show ?case by (simp add: rfind_None[THEN iffD2])
next
  case (Cons x xs)
  then show ?case by simp
qed

lemma path_cut:
  assumes "stem \<noteq> []" and "ext \<noteq> []" and "CHR ''.'' \<notin> set ext"
  shows "path_suffix (stem @ ''.'' @ ext) = ''.'' @ ext"
    and "path_stem (stem @ ''.'' @ ext) = stem"
  using assms rfind_append[of "CHR ''.''" ext stem]
  by (simp_all add: path_suffix_def path_stem_def)

lemma path_suffix_shape:
  assumes "path_suffix name \<noteq> []"
  shows "\<exists>ext. path_suffix name = CHR ''.'' # ext \<and> ext \<noteq> [] \<and> CHR ''.'' \<notin> set ext
           \<and> path_stem name \<noteq> [] \<and> name = path_stem name @ path_suffix name"
proof -
  obtain i where i: "rfind (CHR ''.'') name = Some i" "0 < i" "i + 1 < length name"
    and s: "path_suffix name = drop i name"
    using assms by (auto simp: path_suffix_def split: option.splits if_splits)
  note r = rfind_Some[OF i(1)]
  have "drop i name = name ! i # drop (Suc i) name"
    using r Cons_nth_drop_Suc[of i name] by simp
  then have "path_suffix name = CHR ''.'' # drop (Suc i) name" using r s by simp
  moreover have "drop (Suc i) name \<noteq> []" using i(3) by simp
  moreover have "path_stem name = take i name" using i by (simp add: path_stem_def)
  moreover have "take i name \<noteq> []" using i(2,3) by auto
  moreover have "name = take i name @ drop i name" by simp
  ultimately show ?thesis using r s by metis
qed

lemma of_char_lower_range:
  assumes "65 \<le> (of_char c :: nat)" and "(of_char c :: nat) \<le> 90"
  shows "(of_char (lower_char c) :: nat) = of_char c + 32"
  using assms by (simp add: lower_char_def Let_def)

lemma lower_char_dot: "lower_char c = CHR ''.'' \<longleftrightarrow> c = CHR ''.''"
proof
  assume a: "lower_char c = CHR ''.''"
  show "c = CHR ''.''"
  proof (cases "65 \<le> (of_char c :: nat) \<and> (of_char c :: nat) \<le> 90")
    case True
    then have "(of_char (lower_char c) :: nat) = of_char c + 32"
      by (simp add: of_char_lower_range)
    then show ?thesis using True a by simp
  next
    case False
    then show ?thesis using a by (auto simp: lower_char_def Let_def)
  qed
next
  assume "c = CHR ''.''"
  then show "lower_char c = CHR ''.''" by (simp add: lower_char_def)
qed

lemma str_lower_dot_free: "CHR ''.'' \<in> set (str_lower s) \<longleftrightarrow> CHR ''.'' \<in> set s"
proof (induction s)
  case Nil
  then show ?case by (simp add: str_lower_def)
next
  case (Cons a s)
  have "(CHR ''.'' = lower_char a) = (CHR ''.'' = a)" using lower_char_dot[of a] by auto
  then show ?case using Cons by (simp add: str_lower_def)
qed

lemma str_lower_Cons_dot: "str_lower (CHR ''.'' # s) = CHR ''.'' # str_lower s"
  by (simp add: str_lower_def lower_char_dot[THEN iffD2])

lemma str_lower_drop: "str_lower (drop n s) = drop n (str_lower s)"
  by (simp add: str_lower_def drop_map)

lemma str_lower_Nil_iff: "str_lower s = [] \<longleftrightarrow> s = []"
  by (simp add: str_lower_def)

lemma supported_iff:
  "str_lower (path_suffix name) \<in> SUPPORTED_FORMATS \<longleftrightarrow>
   str_lower (drop 1 (path_suffix name)) \<in> {''jpg'', ''jpeg'', ''png'', ''gif'', ''bmp'', ''tiff'', ''webp''}"
proof (cases "path_suffix name = []")
  case True
  then show ?thesis by (simp add: SUPPORTED_FORMATS_def str_lower_def)
next
  case False
  from path_suffix_shape[OF False] obtain ext where "path_suffix name = CHR ''.'' # ext" by blast
  then show ?thesis by (simp add: SUPPORTED_FORMATS_def str_lower_Cons_dot)
qed

subsection \<open>The files that are listed\<close>

lemma collect_image_files_filter:
  "collect_image_files listing acc
     = acc @ filter (\<lambda>p. entry_is_file p
                        \<and> str_lower (path_suffix (entry_name p)) \<in> SUPPORTED_FORMATS) listing"
  by (induction listing arbitrary: acc) simp_all

lemma collect_example:
  "collect_image_files [file_a, file_b, file_c, dir_d] [] = [file_a, file_c]"
  by code_simp

lemma get_image_files_result:
  assumes "fs_iterdir E (world s) (input_folder (self s)) = Inr listing"
  shows "fst (get_image_files E s) = Inr (collect_image_files listing [])"
  using assms
  by (simp add: get_image_files_def and_then_def logger_def py_return_def Let_def)

text \<open>
  C5: \<^verbatim>\<open>get_image_files\<close> returns the entries of the directory listing, in the order of
  the listing, that are files and whose extension, in lower case, is one of jpg, jpeg, png,
  gif, bmp, tiff, webp. It looks at the listing of the one directory only; a listing of
  \<^verbatim>\<open>a.jpg\<close>, \<^verbatim>\<open>b.txt\<close>, \<^verbatim>\<open>c.PNG\<close> and a subdirectory \<^verbatim>\<open>d\<close> gives \<^verbatim>\<open>a.jpg\<close> and \<^verbatim>\<open>c.PNG\<close>.
\<close>

theorem get_image_files_lists_supported_files:
  assumes "fs_iterdir E (world s) (input_folder (self s)) = Inr listing"
  shows "fst (get_image_files E s)
     = Inr (filter (\<lambda>p. entry_is_file p
                \<and> str_lower (drop 1 (path_suffix (entry_name p)))
                    \<in> {''jpg'', ''jpeg'', ''png'', ''gif'', ''bmp'', ''tiff'', ''webp''}) listing)"
  using get_image_files_result[OF assms]
  by (simp add: collect_image_files_filter supported_iff)

theorem get_image_files_lists_supported_files_witness:
  "fs_iterdir (demo_env [file_a, file_b, file_c, dir_d]) (world (start demo []))
       (input_folder (self (start demo []))) = Inr [file_a, file_b, file_c, dir_d]
   \<and> fst (get_image_files (demo_env [file_a, file_b, file_c, dir_d]) (start demo []))
       = Inr [file_a, file_c]"
proof -
  have l: "fs_iterdir (demo_env [file_a, file_b, file_c, dir_d]) (world (start demo []))
       (input_folder (self (start demo []))) = Inr [file_a, file_b, file_c, dir_d]"
    by (simp add: demo_env_def)
  have "filter (\<lambda>p. entry_is_file p
                \<and> str_lower (drop 1 (path_suffix (entry_name p)))
                    \<in> {''jpg'', ''jpeg'', ''png'', ''gif'', ''bmp'', ''tiff'', ''webp''})
          [file_a, file_b, file_c, dir_d] = collect_image_files [file_a, file_b, file_c, dir_d] []"
    by (simp only: collect_image_files_filter supported_iff append_Nil)
  then show ?thesis
    using get_image_files_lists_supported_files[OF l] l by (simp only: collect_example simp_thms)
qed

subsection \<open>The name of the output file\<close>

lemma supported_suffix_shape:
  assumes "str_lower (path_suffix name) \<in> SUPPORTED_FORMATS"
  shows "\<exists>ext. path_suffix name = CHR ''.'' # ext \<and> ext \<noteq> [] \<and> CHR ''.'' \<notin> set ext
           \<and> path_stem name \<noteq> []"
proof -
  have "path_suffix name \<noteq> []"
    using assms by (auto simp: SUPPORTED_FORMATS_def str_lower_def)
  from path_suffix_shape[OF this] show ?thesis by blast
qed

text \<open>
  C6 (as amended): for a file that \<^verbatim>\<open>get_image_files\<close> lists, the output file name is the
  stem of the input name, a dot, and the configured output format when one is set, else
  the extension of the input name in lower case: \<^verbatim>\<open>c.PNG\<close> is written as \<^verbatim>\<open>c.png\<close>.
  When the format holds no dot (none of the formats of the command line does) the stem
  and the suffix of the output name, as \<^verbatim>\<open>pathlib\<close> cuts it, are that stem and that
  extension.
\<close>

theorem output_filename_stem_and_extension:
  assumes "str_lower (path_suffix (entry_name image_path)) \<in> SUPPORTED_FORMATS"
    and "\<forall>f. output_format slf = Some f \<longrightarrow> f \<noteq> [] \<and> CHR ''.'' \<notin> set f"
  shows "output_filename slf image_path
           = path_stem (entry_name image_path) @ ''.'' @
             (case output_format slf of
                Some f \<Rightarrow> f
              | None \<Rightarrow> str_lower (drop 1 (path_suffix (entry_name image_path))))
       \<and> path_stem (output_filename slf image_path) = path_stem (entry_name image_path)
       \<and> path_suffix (output_filename slf image_path)
           = ''.'' @ (case output_format slf of
                        Some f \<Rightarrow> f
                      | None \<Rightarrow> str_lower (drop 1 (path_suffix (entry_name image_path))))"
proof -
  obtain ext where ext: "path_suffix (entry_name image_path) = CHR ''.'' # ext" "ext \<noteq> []"
      "CHR ''.'' \<notin> set ext" and stem: "path_stem (entry_name image_path) \<noteq> []"
    using supported_suffix_shape[OF assms(1)] by blast
  show ?thesis
  proof (cases "output_format slf")
    case None
    have l: "str_lower ext \<noteq> []" "CHR ''.'' \<notin> set (str_lower ext)"
      using ext(2,3) by (simp_all add: str_lower_Nil_iff str_lower_dot_free)
    show ?thesis
      using path_cut[OF stem l]
      by (simp add: output_filename_def chosen_format_def None ext(1))
  next
    case (Some f)
    then have f: "f \<noteq> []" "CHR ''.'' \<notin> set f" using assms(2) by simp_all
    show ?thesis
      using path_cut[OF stem f] f(1)
      by (simp add: output_filename_def chosen_format_def Some)
  qed
qed

lemma output_filename_c_PNG:
  "output_filename demo file_c = ''c.png''"
  "output_filename (demo\<lparr>output_format := Some ''jpg''\<rparr>) file_c = ''c.jpg''"
  "path_suffix (entry_name file_c) = ''.PNG''"
  "path_stem (entry_name file_c) = ''c''"
  "str_lower (path_suffix (entry_name file_c)) \<in> SUPPORTED_FORMATS"
  by code_simp+

theorem output_filename_stem_and_extension_witness:
  "str_lower (path_suffix (entry_name file_c)) \<in> SUPPORTED_FORMATS
   \<and> output_format demo = None
   \<and> path_stem (output_filename demo file_c) = ''c''
   \<and> path_suffix (output_filename demo file_c) = ''.png''
   \<and> path_stem (output_filename (demo\<lparr>output_format := Some ''jpg''\<rparr>) file_c) = ''c''
   \<and> path_suffix (output_filename (demo\<lparr>output_format := Some ''jpg''\<rparr>) file_c) = ''.jpg''"
proof -
  have n: "output_format demo = None" by (simp add: demo_def init_def)
  have h1: "\<forall>f. output_format demo = Some f \<longrightarrow> f \<noteq> [] \<and> CHR ''.'' \<notin> set f"
    by (simp add: n)
  have h2: "\<forall>f. output_format (demo\<lparr>output_format := Some ''jpg''\<rparr>) = Some f
              \<longrightarrow> f \<noteq> [] \<and> CHR ''.'' \<notin> set f"
    by simp
  have a: "path_stem (output_filename demo file_c) = path_stem (entry_name file_c)
      \<and> path_suffix (output_filename demo file_c)
          = ''.'' @ str_lower (drop 1 (path_suffix (entry_name file_c)))"
    using output_filename_stem_and_extension[OF output_filename_c_PNG(5) h1, THEN conjunct2]
    by (simp only: n option.case)
  have b: "path_stem (output_filename (demo\<lparr>output_format := Some ''jpg''\<rparr>) file_c)
         = path_stem (entry_name file_c)
      \<and> path_suffix (output_filename (demo\<lparr>output_format := Some ''jpg''\<rparr>) file_c) = ''.jpg''"
    using output_filename_stem_and_extension[OF output_filename_c_PNG(5) h2, THEN conjunct2]
    by simp
  have l: "str_lower ''PNG'' = ''png''" by code_simp
  show ?thesis
    using a b n output_filename_c_PNG(5)
    by (simp add: output_filename_c_PNG(3,4) l)
qed

theorem output_filename_lower_cases_extension:
  "output_filename demo file_c = ''c.png'' \<and> path_suffix (entry_name file_c) = ''.PNG''"
  by (simp only: output_filename_c_PNG simp_thms)

section \<open>Actions and what they change\<close>

lemmas action_defs = and_then_def py_return_def pure_step_def logger_def pil_def image_open_def
  image_save_def getsize_def incr_processed_def incr_failed_def

subsection \<open>What the actions keep\<close>

lemma keeps_and_then:
  assumes "keeps g m" and "\<And>v. keeps g (f v)"
  shows "keeps g (and_then m f)"
  unfolding keeps_def
proof
  fix s
  show "g (self (snd (and_then m f s))) = g (self s)"
  proof (cases "m s")
    case (Pair r s')
    have s': "g (self s') = g (self s)" using assms(1) Pair by (auto simp: keeps_def dest: spec[of _ s])
    show ?thesis
    proof (cases r)
      case (Inl e)
      then show ?thesis using Pair s' by (simp add: and_then_def)
    next
      case (Inr v)
      have "g (self (snd (f v s'))) = g (self s')" using assms(2)[of v] by (simp add: keeps_def)
      then show ?thesis using Pair Inr s' by (simp add: and_then_def)
    qed
  qed
qed

lemma keeps_if: "keeps g a \<Longrightarrow> keeps g b \<Longrightarrow> keeps g (if c then a else b)"
  by simp

lemma keeps_basic:
  "keeps g (py_return v)" "keeps g (pure_step r)" "keeps g (logger l msg)" "keeps g (pil c r)"
  "keeps g (image_open E path)" "keeps g (image_save E img path kw)" "keeps g (getsize E path)"
  by (simp_all add: keeps_def action_defs split: prod.splits)

lemma keeps_state_logger: "keeps g (\<lambda>s. logger l (h s) s)"
  by (simp add: keeps_def logger_def)

lemma keeps_flatten: "keeps g (flatten_onto_white E img)"
  unfolding flatten_onto_white_def
  by (intro keeps_and_then keeps_if keeps_basic)

lemma counts_success_and_then:
  assumes "keeps id m" and "\<And>v. counts_success (f v)"
  shows "counts_success (and_then m f)"
  unfolding counts_success_def
proof
  fix s
  show "self (snd (and_then m f s)) =
     (case fst (and_then m f s) of
        Inr _ \<Rightarrow> (self s)\<lparr>processed := processed (self s) + 1\<rparr>
      | Inl _ \<Rightarrow> self s)"
  proof (cases "m s")
    case (Pair r s')
    have s': "self s' = self s" using assms(1) Pair by (auto simp: keeps_def dest: spec[of _ s])
    show ?thesis
    proof (cases r)
      case (Inl e)
      then show ?thesis using Pair s' by (simp add: and_then_def)
    next
      case (Inr v)
      then show ?thesis
        using assms(2)[of v, unfolded counts_success_def, rule_format, of s'] Pair s'
        by (simp add: and_then_def split: sum.splits)
    qed
  qed
qed

lemma counts_success_final: "counts_success (and_then incr_processed (\<lambda>_. py_return True))"
  by (simp add: counts_success_def action_defs)

lemma counts_success_resize_and_save: "counts_success (resize_and_save E slf image_path img)"
  unfolding resize_and_save_def Let_def
  by (intro counts_success_and_then counts_success_final keeps_basic)

lemma counts_success_resize_image_try: "counts_success (resize_image_try E slf image_path)"
  unfolding resize_image_try_def
  by (intro counts_success_and_then counts_success_resize_and_save keeps_basic keeps_if
      keeps_flatten)

lemma resize_image_self:
  "self (snd (resize_image E image_path s)) =
     (case fst (resize_image_try E (self s) image_path s) of
        Inr _ \<Rightarrow> (self s)\<lparr>processed := processed (self s) + 1\<rparr>
      | Inl _ \<Rightarrow> (self s)\<lparr>failed := failed (self s) + 1\<rparr>)"
proof (cases "resize_image_try E (self s) image_path s")
  case (Pair r s')
  have c: "self s' = (case r of Inr _ \<Rightarrow> (self s)\<lparr>processed := processed (self s) + 1\<rparr>
                     | Inl _ \<Rightarrow> self s)"
    using counts_success_resize_image_try[of E "self s" image_path, unfolded counts_success_def,
        rule_format, of s] Pair by simp
  show ?thesis
  proof (cases r)
    case (Inl e)
    then show ?thesis using Pair c by (simp add: resize_image_def action_defs)
  next
    case (Inr v)
    then show ?thesis using Pair c by (simp add: resize_image_def)
  qed
qed

lemma resize_image_one_counter:
  "(processed (self (snd (resize_image E image_path s))) = processed (self s) + 1
      \<and> failed (self (snd (resize_image E image_path s))) = failed (self s))
   \<or> (processed (self (snd (resize_image E image_path s))) = processed (self s)
      \<and> failed (self (snd (resize_image E image_path s))) = failed (self s) + 1)"
  by (simp add: resize_image_self split: sum.splits)

lemma resize_image_config:
  "\<exists>a b. self (snd (resize_image E image_path s)) = (self s)\<lparr>processed := a, failed := b\<rparr>
     \<and> a + b = processed (self s) + failed (self s) + 1"
proof (cases "fst (resize_image_try E (self s) image_path s)")
  case (Inl e)
  then have "self (snd (resize_image E image_path s))
      = (self s)\<lparr>processed := processed (self s), failed := failed (self s) + 1\<rparr>"
    by (simp add: resize_image_self)
  then show ?thesis
    by (intro exI[of _ "processed (self s)"] exI[of _ "failed (self s) + 1"] conjI) simp_all
next
  case (Inr v)
  then have "self (snd (resize_image E image_path s))
      = (self s)\<lparr>processed := processed (self s) + 1, failed := failed (self s)\<rparr>"
    by (simp add: resize_image_self)
  then show ?thesis
    by (intro exI[of _ "processed (self s) + 1"] exI[of _ "failed (self s)"] conjI) simp_all
qed

lemma process_images_config:
  "\<exists>a b. self (process_images E n i files s) = (self s)\<lparr>processed := a, failed := b\<rparr>
     \<and> a + b = processed (self s) + failed (self s) + length files"
proof (induction files arbitrary: i s)
  case Nil
  have "self s = (self s)\<lparr>processed := processed (self s), failed := failed (self s)\<rparr>" by simp
  then show ?case by (intro exI[of _ "processed (self s)"] exI[of _ "failed (self s)"]) simp
next
  case (Cons image_path rest)
  define s1 where "s1 = snd (logger INFO (Msg_progress i n) s)"
  define s2 where "s2 = snd (resize_image E image_path s1)"
  have s1: "self s1 = self s" by (simp add: s1_def logger_def)
  obtain a b where ab: "self s2 = (self s1)\<lparr>processed := a, failed := b\<rparr>"
      "a + b = processed (self s1) + failed (self s1) + 1"
    using resize_image_config[of E image_path s1] unfolding s2_def by blast
  obtain a' b' where ab': "self (process_images E n (Suc i) rest s2)
        = (self s2)\<lparr>processed := a', failed := b'\<rparr>"
      "a' + b' = processed (self s2) + failed (self s2) + length rest"
    using Cons.IH[of "Suc i" s2] by blast
  have "self (process_images E n i (image_path # rest) s) = (self s)\<lparr>processed := a', failed := b'\<rparr>"
    using ab(1) ab'(1) s1 by (simp add: s1_def s2_def)
  moreover have "a' + b' = processed (self s) + failed (self s) + length (image_path # rest)"
    using ab ab'(2) s1 by simp
  ultimately show ?case by blast
qed


subsection \<open>Which calls the actions make\<close>

lemma emits_and_then:
  assumes "emits P m" and "\<And>v. emits P (f v)"
  shows "emits P (and_then m f)"
  unfolding emits_def
proof
  fix s
  obtain r s' where ms: "m s = (r, s')" by (cases "m s")
  obtain cs where cs: "calls s' = calls s @ cs" "\<forall>c\<in>set cs. P c"
    using assms(1)[unfolded emits_def, rule_format, of s] ms by auto
  show "\<exists>cs. calls (snd (and_then m f s)) = calls s @ cs \<and> (\<forall>c\<in>set cs. P c)"
  proof (cases r)
    case (Inl e)
    then show ?thesis using ms cs by (auto simp: and_then_def)
  next
    case (Inr v)
    obtain ds where ds: "calls (snd (f v s')) = calls s' @ ds" "\<forall>c\<in>set ds. P c"
      using assms(2)[of v, unfolded emits_def, rule_format, of s'] by auto
    have "calls (snd (and_then m f s)) = calls s @ (cs @ ds)"
      using ms Inr cs(1) ds(1) by (simp add: and_then_def)
    moreover have "\<forall>c\<in>set (cs @ ds). P c" using cs(2) ds(2) by auto
    ultimately show ?thesis by blast
  qed
qed

lemma emits_if: "emits P a \<Longrightarrow> emits P b \<Longrightarrow> emits P (if c then a else b)"
  by simp

lemma emits_silent:
  "emits P (py_return v)" "emits P (pure_step r)" "emits P (logger l msg)"
  "emits P incr_processed" "emits P incr_failed" "emits P (\<lambda>s. logger l (h s) s)"
  by (simp_all add: emits_def action_defs)

lemma emits_pil: "P c \<Longrightarrow> emits P (pil c r)"
  by (simp add: emits_def pil_def)

lemma emits_image_save: "P (Call_save img path kw) \<Longrightarrow> emits P (image_save E img path kw)"
  by (simp add: emits_def image_save_def pil_def split: prod.splits)

lemma emits_getsize: "P (Call_getsize path) \<Longrightarrow> emits P (getsize E path)"
  by (simp add: emits_def getsize_def pil_def)

lemma emits_resize_and_save:
  "emits (\<lambda>c. \<not> in_flatten_block c \<and> \<not> is_open c \<and> (\<forall>x sz. c = Call_resize x sz \<longrightarrow> x = img))
     (resize_and_save E slf image_path img)"
  unfolding resize_and_save_def Let_def
  by (intro emits_and_then emits_silent emits_pil emits_image_save emits_getsize) simp_all

lemma flatten_onto_white_calls:
  "\<exists>cs. calls (snd (flatten_onto_white E img s))
          = calls s @ Call_new ''RGB'' (pil_size E img) (255, 255, 255) # cs
      \<and> (\<forall>c\<in>set cs. in_flatten_block c \<and> \<not> is_open c)
      \<and> (\<forall>x. fst (flatten_onto_white E img s) = Inr x \<longrightarrow>
            (\<exists>bg src m. pil_new E ''RGB'' (pil_size E img) (255, 255, 255) = Inr bg
               \<and> Call_paste bg src m \<in> set cs \<and> pil_paste E bg src m = Inr x))"
  by (auto simp: flatten_onto_white_def action_defs split: sum.splits)


lemma and_then_Inr: "m s = (Inr v, s') \<Longrightarrow> and_then m f s = f v s'"
  by (simp add: and_then_def)

lemma and_then_Inl: "m s = (Inl e, s') \<Longrightarrow> and_then m f s = (Inl e, s')"
  by (simp add: and_then_def)

lemma resize_image_calls:
  "calls (snd (resize_image E image_path s)) = calls (snd (resize_image_try E (self s) image_path s))"
  by (cases "resize_image_try E (self s) image_path s")
     (auto simp: resize_image_def action_defs split: sum.splits)

lemma new_calls_append: "calls s' = calls s @ cs \<Longrightarrow> new_calls s s' = cs"
  by (simp add: new_calls_def)

lemma resize_image_try_calls:
  assumes op: "pil_open E (world s) (path_join (input_folder slf) (entry_name image_path)) = Inr img"
  shows "\<exists>before after.
           calls (snd (resize_image_try E slf image_path s))
             = calls s @ Call_open (path_join (input_folder slf) (entry_name image_path))
                 # before @ after
         \<and> (\<forall>c\<in>set before. in_flatten_block c \<and> \<not> is_open c)
         \<and> (\<forall>c\<in>set after. \<not> in_flatten_block c \<and> \<not> is_open c)
         \<and> (if flatten_condition slf (pil_mode E img)
             then (\<exists>rest. before = Call_new ''RGB'' (pil_size E img) (255, 255, 255) # rest)
                \<and> (\<forall>x sz. Call_resize x sz \<in> set after \<longrightarrow>
                     (\<exists>bg src m. pil_new E ''RGB'' (pil_size E img) (255, 255, 255) = Inr bg
                        \<and> Call_paste bg src m \<in> set before \<and> pil_paste E bg src m = Inr x))
             else before = [] \<and> (\<forall>x sz. Call_resize x sz \<in> set after \<longrightarrow> x = img))"
proof -
  define p where "p = path_join (input_folder slf) (entry_name image_path)"
  define s0 where "s0 = s\<lparr>calls := calls s @ [Call_open p]\<rparr>"
  define s1 where "s1 = s0\<lparr>logged := logged s0 @ [(INFO, Msg_processing (entry_name image_path)
                 (fst (pil_size E img)) (snd (pil_size E img)))]\<rparr>"
  have o: "image_open E p s = (Inr img, s0)"
    using op by (simp add: image_open_def pil_def p_def s0_def)
  have l: "logger INFO (Msg_processing (entry_name image_path)
                 (fst (pil_size E img)) (snd (pil_size E img))) s0 = (Inr (), s1)"
    by (simp add: logger_def s1_def)
  have c1: "calls s1 = calls s @ [Call_open p]" by (simp add: s1_def s0_def)
  have t: "resize_image_try E slf image_path s
      = and_then (if flatten_condition slf (pil_mode E img)
                  then flatten_onto_white E img else py_return img)
          (resize_and_save E slf image_path) s1"
    unfolding resize_image_try_def p_def[symmetric]
    by (simp only: and_then_Inr[of "image_open E p" s, OF o]
        and_then_Inr[of "logger INFO (Msg_processing (entry_name image_path)
                 (fst (pil_size E img)) (snd (pil_size E img)))" s0, OF l])
  show ?thesis
  proof (cases "flatten_condition slf (pil_mode E img)")
    case True
    obtain cs where cs: "calls (snd (flatten_onto_white E img s1))
          = calls s1 @ Call_new ''RGB'' (pil_size E img) (255, 255, 255) # cs"
      "\<forall>c\<in>set cs. in_flatten_block c \<and> \<not> is_open c"
      "\<forall>x. fst (flatten_onto_white E img s1) = Inr x \<longrightarrow>
            (\<exists>bg src m. pil_new E ''RGB'' (pil_size E img) (255, 255, 255) = Inr bg
               \<and> Call_paste bg src m \<in> set cs \<and> pil_paste E bg src m = Inr x)"
      using flatten_onto_white_calls[of E img s1] by blast
    obtain r s2 where f: "flatten_onto_white E img s1 = (r, s2)"
      by (cases "flatten_onto_white E img s1")
    have c2: "calls s2 = calls s @ Call_open p # (Call_new ''RGB'' (pil_size E img) (255, 255, 255) # cs)"
      using cs(1) f c1 by simp
    show ?thesis
    proof (cases r)
      case (Inl e)
      have "calls (snd (resize_image_try E slf image_path s))
          = calls s @ Call_open p # (Call_new ''RGB'' (pil_size E img) (255, 255, 255) # cs) @ []"
        using True f Inl c2 by (simp add: t and_then_def)
      then show ?thesis
        using cs(2) True unfolding p_def
        by (intro exI[of _ "Call_new ''RGB'' (pil_size E img) (255, 255, 255) # cs"] exI[of _ "[]"])
           simp
    next
      case (Inr x)
      obtain ds where ds: "calls (snd (resize_and_save E slf image_path x s2)) = calls s2 @ ds"
        "\<forall>c\<in>set ds. \<not> in_flatten_block c \<and> \<not> is_open c \<and> (\<forall>y sz. c = Call_resize y sz \<longrightarrow> y = x)"
        using emits_resize_and_save[of x E slf image_path, unfolded emits_def, rule_format, of s2]
        by blast
      have "calls (snd (resize_image_try E slf image_path s))
          = calls s @ Call_open p # (Call_new ''RGB'' (pil_size E img) (255, 255, 255) # cs) @ ds"
        using True f Inr c2 ds(1) by (simp add: t and_then_def)
      moreover have "\<forall>y sz. Call_resize y sz \<in> set ds \<longrightarrow>
            (\<exists>bg src m. pil_new E ''RGB'' (pil_size E img) (255, 255, 255) = Inr bg
               \<and> Call_paste bg src m \<in> set (Call_new ''RGB'' (pil_size E img) (255, 255, 255) # cs)
               \<and> pil_paste E bg src m = Inr y)"
      proof (intro allI impI)
        fix y sz
        assume "Call_resize y sz \<in> set ds"
        then have "y = x" using ds(2) by blast
        then show "\<exists>bg src m. pil_new E ''RGB'' (pil_size E img) (255, 255, 255) = Inr bg
               \<and> Call_paste bg src m \<in> set (Call_new ''RGB'' (pil_size E img) (255, 255, 255) # cs)
               \<and> pil_paste E bg src m = Inr y"
          using cs(3) f Inr by fastforce
      qed
      ultimately show ?thesis
        using cs(2) ds(2) True unfolding p_def
        by (intro exI[of _ "Call_new ''RGB'' (pil_size E img) (255, 255, 255) # cs"] exI[of _ ds])
           simp
    qed
  next
    case False
    obtain ds where ds: "calls (snd (resize_and_save E slf image_path img s1)) = calls s1 @ ds"
      "\<forall>c\<in>set ds. \<not> in_flatten_block c \<and> \<not> is_open c \<and> (\<forall>y sz. c = Call_resize y sz \<longrightarrow> y = img)"
      using emits_resize_and_save[of img E slf image_path, unfolded emits_def, rule_format, of s1]
      by blast
    have "calls (snd (resize_image_try E slf image_path s)) = calls s @ Call_open p # [] @ ds"
      using False ds(1) c1 by (simp add: t and_then_def py_return_def)
    then show ?thesis
      using ds(2) False unfolding p_def
      by (intro exI[of _ "[]"] exI[of _ ds]) simp
  qed
qed


lemma resize_image_opens_once:
  "\<exists>cs. calls (snd (resize_image E image_path s))
          = calls s @ Call_open (path_join (input_folder (self s)) (entry_name image_path)) # cs
      \<and> (\<forall>c\<in>set cs. \<not> is_open c)"
proof (cases "pil_open E (world s) (path_join (input_folder (self s)) (entry_name image_path))")
  case (Inl e)
  have "image_open E (path_join (input_folder (self s)) (entry_name image_path)) s
      = (Inl e, s\<lparr>calls := calls s
             @ [Call_open (path_join (input_folder (self s)) (entry_name image_path))]\<rparr>)"
    using Inl by (simp add: image_open_def pil_def)
  then have "calls (snd (resize_image_try E (self s) image_path s))
      = calls s @ [Call_open (path_join (input_folder (self s)) (entry_name image_path))]"
    by (simp add: resize_image_try_def and_then_def)
  then show ?thesis by (simp add: resize_image_calls)
next
  case (Inr img)
  from resize_image_try_calls[OF Inr] obtain before after where
    "calls (snd (resize_image_try E (self s) image_path s))
       = calls s @ Call_open (path_join (input_folder (self s)) (entry_name image_path))
           # before @ after"
    "\<forall>c\<in>set before. in_flatten_block c \<and> \<not> is_open c"
    "\<forall>c\<in>set after. \<not> in_flatten_block c \<and> \<not> is_open c"
    by blast
  then show ?thesis
    by (intro exI[of _ "before @ after"]) (auto simp: resize_image_calls)
qed

lemma process_images_opens:
  "\<exists>xs. calls (process_images E n i files s) = calls s @ xs
      \<and> filter is_open xs
          = map (\<lambda>f. Call_open (path_join (input_folder (self s)) (entry_name f))) files"
proof (induction files arbitrary: i s)
  case Nil
  then show ?case by simp
next
  case (Cons image_path rest)
  define s1 where "s1 = snd (logger INFO (Msg_progress i n) s)"
  define s2 where "s2 = snd (resize_image E image_path s1)"
  have s1: "self s1 = self s" "calls s1 = calls s" by (simp_all add: s1_def logger_def)
  obtain cs where cs: "calls s2
        = calls s1 @ Call_open (path_join (input_folder (self s1)) (entry_name image_path)) # cs"
      "\<forall>c\<in>set cs. \<not> is_open c"
    using resize_image_opens_once[of E image_path s1] unfolding s2_def by blast
  have f: "input_folder (self s2) = input_folder (self s)"
    using resize_image_config[of E image_path s1] s1(1) unfolding s2_def by auto
  obtain xs where xs: "calls (process_images E n (Suc i) rest s2) = calls s2 @ xs"
      "filter is_open xs = map (\<lambda>f. Call_open (path_join (input_folder (self s2)) (entry_name f))) rest"
    using Cons.IH[of "Suc i" s2] by blast
  have "calls (process_images E n i (image_path # rest) s)
      = calls s @ (Call_open (path_join (input_folder (self s)) (entry_name image_path)) # cs @ xs)"
    using cs(1) xs(1) s1 by (simp add: s1_def s2_def)
  moreover have "filter is_open
        (Call_open (path_join (input_folder (self s)) (entry_name image_path)) # cs @ xs)
      = map (\<lambda>f. Call_open (path_join (input_folder (self s)) (entry_name f))) (image_path # rest)"
    using cs(2) xs(2) f by (simp add: filter_empty_conv[THEN iffD2])
  ultimately show ?case by blast
qed

subsection \<open>The steps of \<^verbatim>\<open>process_batch\<close>\<close>

lemma announce_run:
  "fst (announce s) = Inr ()" "self (snd (announce s)) = self s"
  "calls (snd (announce s)) = calls s" "world (snd (announce s)) = world s"
  by (simp_all add: announce_def action_defs split: option.splits)

lemma print_summary_run:
  "fst (print_summary s) = Inr ()" "self (snd (print_summary s)) = self s"
  "calls (snd (print_summary s)) = calls s" "world (snd (print_summary s)) = world s"
  by (simp_all add: print_summary_def action_defs)

lemma create_output_folder_run:
  assumes "fs_mkdir E (world s) (output_folder (self s)) = (Inr (), w)"
  shows "fst (create_output_folder E s) = Inr ()" "self (snd (create_output_folder E s)) = self s"
    "calls (snd (create_output_folder E s)) = calls s" "world (snd (create_output_folder E s)) = w"
  using assms by (simp_all add: create_output_folder_def action_defs)

lemma get_image_files_run:
  assumes "fs_iterdir E (world s) (input_folder (self s)) = Inr listing"
  shows "fst (get_image_files E s) = Inr (collect_image_files listing [])"
    "self (snd (get_image_files E s)) = self s"
    "calls (snd (get_image_files E s)) = calls s"
  using assms by (simp_all add: get_image_files_def action_defs Let_def)

lemma and_then_fst_Inr:
  "fst (m s) = Inr v \<Longrightarrow> and_then m f s = f v (snd (m s))"
  by (cases "m s") (simp add: and_then_def)

lemma process_batch_run:
  assumes mk: "fs_mkdir E (world s) (output_folder (self s)) = (Inr (), w)"
    and ls: "fs_iterdir E w (input_folder (self s)) = Inr listing"
  shows "\<exists>t. self t = self s \<and> calls t = calls s
       \<and> process_batch E s =
           (if collect_image_files listing [] = []
            then logger WARNING Msg_no_supported_files t
            else print_summary
                   (process_images E (length (collect_image_files listing [])) 1
                      (collect_image_files listing []) t))"
proof -
  let ?s1 = "snd (announce s)"
  let ?s2 = "snd (create_output_folder E ?s1)"
  let ?s3 = "snd (get_image_files E ?s2)"
  let ?files = "collect_image_files listing []"
  have a: "fst (announce s) = Inr ()" by (simp add: announce_run)
  have mk1: "fs_mkdir E (world ?s1) (output_folder (self ?s1)) = (Inr (), w)"
    using mk by (simp add: announce_run)
  note c = create_output_folder_run[OF mk1]
  have ls2: "fs_iterdir E (world ?s2) (input_folder (self ?s2)) = Inr listing"
    using ls by (simp add: c announce_run)
  note g = get_image_files_run[OF ls2]
  have s3: "self ?s3 = self s" "calls ?s3 = calls s"
    by (simp_all add: g c announce_run)
  have "process_batch E s =
          (if ?files = [] then logger WARNING Msg_no_supported_files
           else and_then (\<lambda>s. (Inr (), process_images E (length ?files) 1 ?files s))
                  (\<lambda>_. print_summary)) ?s3"
    unfolding process_batch_def
    by (simp only: and_then_fst_Inr[of announce s, OF a]
        and_then_fst_Inr[of "create_output_folder E" ?s1, OF c(1)]
        and_then_fst_Inr[of "get_image_files E" ?s2, OF g(1)])
  then have "process_batch E s =
           (if ?files = []
            then logger WARNING Msg_no_supported_files ?s3
            else print_summary (process_images E (length ?files) 1 ?files ?s3))"
    by (simp add: and_then_def)
  then show ?thesis using s3 by blast
qed

lemma process_batch_counters:
  assumes mk: "fs_mkdir E (world s) (output_folder (self s)) = (Inr (), w)"
    and ls: "fs_iterdir E w (input_folder (self s)) = Inr listing"
  shows "fst (process_batch E s) = Inr ()"
    and "\<exists>a b. self (snd (process_batch E s)) = (self s)\<lparr>processed := a, failed := b\<rparr>
          \<and> a + b = processed (self s) + failed (self s) + length (collect_image_files listing [])"
    and "filter is_open (new_calls s (snd (process_batch E s)))
          = map (\<lambda>f. Call_open (path_join (input_folder (self s)) (entry_name f)))
              (collect_image_files listing [])"
proof -
  obtain t where t: "self t = self s" "calls t = calls s"
    and pb: "process_batch E s =
           (if collect_image_files listing [] = []
            then logger WARNING Msg_no_supported_files t
            else print_summary
                   (process_images E (length (collect_image_files listing [])) 1
                      (collect_image_files listing []) t))"
    using process_batch_run[OF mk ls] by blast
  define files where "files = collect_image_files listing []"
  show "fst (process_batch E s) = Inr ()"
    by (simp add: pb print_summary_run logger_def)
  obtain a b where ab: "self (process_images E (length files) 1 files t)
        = (self t)\<lparr>processed := a, failed := b\<rparr>"
      "a + b = processed (self t) + failed (self t) + length files"
    using process_images_config[of E "length files" 1 files t] by blast
  show "\<exists>a b. self (snd (process_batch E s)) = (self s)\<lparr>processed := a, failed := b\<rparr>
          \<and> a + b = processed (self s) + failed (self s) + length (collect_image_files listing [])"
  proof (cases "files = []")
    case True
    then have "self (snd (process_batch E s)) = self s"
      using t by (simp add: pb files_def logger_def)
    then show ?thesis
      using True
      by (intro exI[of _ "processed (self s)"] exI[of _ "failed (self s)"])
         (simp add: files_def)
  next
    case False
    then have "self (snd (process_batch E s)) = (self s)\<lparr>processed := a, failed := b\<rparr>"
      using ab(1) t by (simp add: pb files_def[symmetric] print_summary_run)
    then show ?thesis using ab(2) t by (auto simp: files_def)
  qed
  obtain xs where xs: "calls (process_images E (length files) 1 files t) = calls t @ xs"
      "filter is_open xs = map (\<lambda>f. Call_open (path_join (input_folder (self t)) (entry_name f))) files"
    using process_images_opens[of E "length files" 1 files t] by blast
  show "filter is_open (new_calls s (snd (process_batch E s)))
          = map (\<lambda>f. Call_open (path_join (input_folder (self s)) (entry_name f)))
              (collect_image_files listing [])"
  proof (cases "files = []")
    case True
    then show ?thesis using t by (simp add: pb files_def new_calls_def logger_def)
  next
    case False
    then have "calls (snd (process_batch E s)) = calls s @ xs"
      using xs(1) t by (simp add: pb files_def[symmetric] print_summary_run)
    then show ?thesis using xs(2) t by (simp add: new_calls_append files_def)
  qed
qed


subsection \<open>The skipped counter and the log\<close>

lemma never_skips_and_then:
  assumes "never_skips m" and "\<And>v. never_skips (f v)"
  shows "never_skips (and_then m f)"
  unfolding never_skips_def
proof (intro allI impI)
  fix s :: "('a, 'b) run"
  assume z: "skipped (self s) = 0"
  obtain r s' where ms: "m s = (r, s')" by (cases "m s")
  obtain ls where ls: "skipped (self s') = 0" "logged s' = logged s @ ls"
      "\<forall>x\<in>set ls. \<forall>k. snd x \<noteq> Msg_skipped k"
    using assms(1)[unfolded never_skips_def, rule_format, OF z] ms by auto
  show "skipped (self (snd (and_then m f s))) = 0
      \<and> (\<exists>ls. logged (snd (and_then m f s)) = logged s @ ls
            \<and> (\<forall>x\<in>set ls. \<forall>k. snd x \<noteq> Msg_skipped k))"
  proof (cases r)
    case (Inl e)
    then show ?thesis using ms ls by (auto simp: and_then_def)
  next
    case (Inr v)
    obtain ks where ks: "skipped (self (snd (f v s'))) = 0" "logged (snd (f v s')) = logged s' @ ks"
        "\<forall>x\<in>set ks. \<forall>k. snd x \<noteq> Msg_skipped k"
      using assms(2)[of v, unfolded never_skips_def, rule_format, OF ls(1)] by auto
    have "logged (snd (and_then m f s)) = logged s @ (ls @ ks)"
      using ms Inr ls(2) ks(2) by (simp add: and_then_def)
    moreover have "\<forall>x\<in>set (ls @ ks). \<forall>k. snd x \<noteq> Msg_skipped k" using ls(3) ks(3) by auto
    ultimately show ?thesis using ms Inr ks(1) by (auto simp: and_then_def)
  qed
qed

lemma never_skips_if: "never_skips a \<Longrightarrow> never_skips b \<Longrightarrow> never_skips (if c then a else b)"
  by simp

lemma never_skips_silent:
  "never_skips (py_return v)" "never_skips (pure_step r)" "never_skips (pil c r)"
  "never_skips (image_open E path)" "never_skips (image_save E img path kw)"
  "never_skips (getsize E path)" "never_skips incr_processed" "never_skips incr_failed"
  by (simp_all add: never_skips_def action_defs split: prod.splits)

lemma never_skips_logger: "(\<And>k. msg \<noteq> Msg_skipped k) \<Longrightarrow> never_skips (logger l msg)"
  by (simp add: never_skips_def logger_def)

lemma never_skips_state_logger:
  "(\<And>s k. h s \<noteq> Msg_skipped k) \<Longrightarrow> never_skips (\<lambda>s. logger l (h s) s)"
  by (simp add: never_skips_def logger_def)

lemma never_skips_flatten: "never_skips (flatten_onto_white E img)"
  unfolding flatten_onto_white_def
  by (intro never_skips_and_then never_skips_if never_skips_silent)

lemma never_skips_resize_and_save: "never_skips (resize_and_save E slf image_path img)"
  unfolding resize_and_save_def Let_def
  by (intro never_skips_and_then never_skips_silent never_skips_logger) simp_all

lemma never_skips_resize_image_try: "never_skips (resize_image_try E slf image_path)"
  unfolding resize_image_try_def
  by (intro never_skips_and_then never_skips_if never_skips_silent never_skips_logger
      never_skips_flatten never_skips_resize_and_save) simp_all

lemma never_skips_resize_image: "never_skips (\<lambda>s. (Inr (), snd (resize_image E image_path s)))"
proof -
  have "never_skips (\<lambda>s. case resize_image_try E slf image_path s of
            (Inr r, s') \<Rightarrow> (Inr (), s')
          | (Inl e, s') \<Rightarrow> (Inr (), snd (and_then
                (logger ERROR (Msg_failed_to_process (entry_name image_path) e))
                (\<lambda>_. incr_failed) s')))" for slf
  unfolding never_skips_def
  proof (intro allI impI)
    fix s :: "('a, 'b) run"
    assume z: "skipped (self s) = 0"
    obtain r s' where t: "resize_image_try E slf image_path s = (r, s')"
      by (cases "resize_image_try E slf image_path s")
    obtain ls where ls: "skipped (self s') = 0" "logged s' = logged s @ ls"
        "\<forall>x\<in>set ls. \<forall>k. snd x \<noteq> Msg_skipped k"
      using never_skips_resize_image_try[of E slf image_path, unfolded never_skips_def,
          rule_format, OF z] t by auto
    show "skipped (self (snd (case resize_image_try E slf image_path s of
            (Inr r, s') \<Rightarrow> (Inr (), s')
          | (Inl e, s') \<Rightarrow> (Inr (), snd (and_then
                (logger ERROR (Msg_failed_to_process (entry_name image_path) e))
                (\<lambda>_. incr_failed) s'))))) = 0
      \<and> (\<exists>ls. logged (snd (case resize_image_try E slf image_path s of
            (Inr r, s') \<Rightarrow> (Inr (), s')
          | (Inl e, s') \<Rightarrow> (Inr (), snd (and_then
                (logger ERROR (Msg_failed_to_process (entry_name image_path) e))
                (\<lambda>_. incr_failed) s')))) = logged s @ ls
            \<and> (\<forall>x\<in>set ls. \<forall>k. snd x \<noteq> Msg_skipped k))"
    proof (cases r)
      case (Inl e)
      have "logged (snd (and_then (logger ERROR (Msg_failed_to_process (entry_name image_path) e))
                (\<lambda>_. incr_failed) s'))
          = logged s @ (ls @ [(ERROR, Msg_failed_to_process (entry_name image_path) e)])"
        using ls(2) by (simp add: action_defs)
      moreover have "\<forall>x\<in>set (ls @ [(ERROR, Msg_failed_to_process (entry_name image_path) e)]).
          \<forall>k. snd x \<noteq> Msg_skipped k"
        using ls(3) by auto
      moreover have "skipped (self (snd (and_then
            (logger ERROR (Msg_failed_to_process (entry_name image_path) e))
            (\<lambda>_. incr_failed) s'))) = 0"
        using ls(1) by (simp add: action_defs)
      ultimately show ?thesis using t Inl by (simp del: set_append)
    next
      case (Inr v)
      then show ?thesis using t ls by auto
    qed
  qed
  from this[of "self s" for s]
  have "never_skips (\<lambda>s. case resize_image_try E (self s) image_path s of
            (Inr r, s') \<Rightarrow> (Inr (), s')
          | (Inl e, s') \<Rightarrow> (Inr (), snd (and_then
                (logger ERROR (Msg_failed_to_process (entry_name image_path) e))
                (\<lambda>_. incr_failed) s')))"
    unfolding never_skips_def by blast
  moreover have eq: "(\<lambda>s. (Inr (), snd (resize_image E image_path s)))
      = (\<lambda>s. case resize_image_try E (self s) image_path s of
            (Inr r, s') \<Rightarrow> (Inr (), s')
          | (Inl e, s') \<Rightarrow> (Inr (), snd (and_then
                (logger ERROR (Msg_failed_to_process (entry_name image_path) e))
                (\<lambda>_. incr_failed) s')))"
    by (auto simp: resize_image_def fun_eq_iff split: prod.splits sum.splits)
  ultimately show ?thesis by (simp only: eq)
qed


lemma never_skips_process_images:
  "never_skips (\<lambda>s. (Inr (), process_images E n i files s))"
proof (induction files arbitrary: i)
  case Nil
  then show ?case by (simp add: never_skips_def)
next
  case (Cons image_path rest)
  have "never_skips (and_then (logger INFO (Msg_progress i n)) (\<lambda>_.
          and_then (\<lambda>s. (Inr (), snd (resize_image E image_path s))) (\<lambda>_.
          (\<lambda>s. (Inr (), process_images E n (Suc i) rest s)))))"
    by (intro never_skips_and_then never_skips_logger never_skips_resize_image Cons.IH) simp
  moreover have "and_then (logger INFO (Msg_progress i n)) (\<lambda>_.
          and_then (\<lambda>s. (Inr (), snd (resize_image E image_path s))) (\<lambda>_.
          (\<lambda>s. (Inr (), process_images E n (Suc i) rest s))))
      = (\<lambda>s. (Inr (), process_images E n i (image_path # rest) s))"
    by (simp add: fun_eq_iff and_then_def logger_def)
  ultimately show ?case by simp
qed

lemma never_skips_print_summary: "never_skips print_summary"
  by (simp add: never_skips_def print_summary_def action_defs)

lemma never_skips_announce: "never_skips announce"
  by (simp add: never_skips_def announce_def action_defs split: option.splits)

lemma never_skips_create_output_folder: "never_skips (create_output_folder E)"
  by (simp add: never_skips_def create_output_folder_def action_defs split: prod.splits sum.splits)

lemma never_skips_get_image_files: "never_skips (get_image_files E)"
  by (simp add: never_skips_def get_image_files_def action_defs Let_def split: sum.splits)

lemma never_skips_process_batch: "never_skips (process_batch E)"
  unfolding process_batch_def
  by (intro never_skips_and_then never_skips_if never_skips_announce
      never_skips_create_output_folder never_skips_get_image_files never_skips_logger
      never_skips_process_images never_skips_print_summary) simp

lemma keeps_skipped_print_summary: "keeps g print_summary"
  by (simp add: keeps_def print_summary_run)

lemma keeps_announce: "keeps g announce"
  by (simp add: keeps_def announce_run)

lemma keeps_create_output_folder: "keeps g (create_output_folder E)"
  by (simp add: keeps_def create_output_folder_def action_defs split: prod.splits sum.splits)

lemma keeps_get_image_files: "keeps g (get_image_files E)"
  by (simp add: keeps_def get_image_files_def action_defs Let_def split: sum.splits)

lemma keeps_skipped_process_images:
  "keeps skipped (\<lambda>s. (Inr (), process_images E n i files s))"
  unfolding keeps_def
proof
  fix s :: "('a, 'b) run"
  obtain a b where "self (process_images E n i files s) = (self s)\<lparr>processed := a, failed := b\<rparr>"
    using process_images_config[of E n i files s] by blast
  then show "skipped (self (snd (Inr (), process_images E n i files s))) = skipped (self s)"
    by simp
qed

lemma keeps_skipped_process_batch: "keeps skipped (process_batch E)"
  unfolding process_batch_def
  by (intro keeps_and_then keeps_if keeps_announce keeps_create_output_folder
      keeps_get_image_files keeps_basic keeps_skipped_process_images keeps_skipped_print_summary)

lemma skipped_resize_image: "skipped (self (snd (resize_image E image_path s))) = skipped (self s)"
  using resize_image_config[of E image_path s] by auto

subsection \<open>The example world\<close>

lemma demo_start:
  "self (start demo w) = demo" "world (start demo w) = w" "calls (start demo w) = []"
  "input_folder demo = ''photos''" "output_format demo = None" "processed demo = 0"
  "failed demo = 0" "skipped demo = 0" "output_folder demo = ''photos/resized''"
  by (simp_all add: start_def demo_def init_def path_join_def)

text \<open>
  The runs of \<^verbatim>\<open>resize_image\<close> on the example files. With no output format configured,
  the format passed to \<^verbatim>\<open>save\<close> for \<^verbatim>\<open>a.jpg\<close> is the upper-cased extension \<^verbatim>\<open>JPG\<close>,
  which is not the name of a writer.
\<close>

lemma demo_jpeg_fields:
  "input_folder demo_jpeg = ''photos''" "output_folder demo_jpeg = ''photos/resized''"
  "maintain_aspect_ratio demo_jpeg" "target_size demo_jpeg = (800, 600)"
  "output_format demo_jpeg = Some ''jpeg''" "quality demo_jpeg = 85"
  "processed demo_jpeg = 0" "failed demo_jpeg = 0"
  by (simp_all add: demo_jpeg_def init_def path_join_def str_lower_def lower_char_def)

lemma format_of_a_jpg: "str_lower (drop (Suc 0) (path_suffix ''a.jpg'')) = ''jpg''"
  by code_simp

lemma format_of_c_PNG: "str_lower (drop (Suc 0) (path_suffix ''c.PNG'')) = ''png''"
  by code_simp

lemma upper_jpg: "str_upper ''jpg'' = ''JPG''" by code_simp

lemma upper_jpeg: "str_upper ''jpeg'' = ''JPEG''" by code_simp

lemma upper_png: "str_upper ''png'' = ''PNG''" by code_simp

lemma stem_a: "path_stem ''a.jpg'' = ''a''" by code_simp

lemma stem_c: "path_stem ''c.PNG'' = ''c''" by code_simp

lemma stem_g: "path_stem ''g.png'' = ''g''" by code_simp

lemma demo_file_a_fails:
  assumes "input_folder (self t) = ''photos''" and "maintain_aspect_ratio (self t)"
    and "target_size (self t) = (800, 600)" and "output_format (self t) = None"
  shows "fst (resize_image_try (demo_env l) (self t) file_a t) = Inl (LibraryError ''KeyError: JPG'')"
  using assms
  by (simp add: resize_image_try_def resize_and_save_def action_defs demo_env_def path_join_def
      flatten_condition_def calculate_1920_1080 Let_def file_a_def chosen_format_def
      make_save_kwargs_def format_of_a_jpg upper_jpg pillow_writers_def)

lemma demo_file_c_succeeds:
  assumes "input_folder (self t) = ''photos''" and "maintain_aspect_ratio (self t)"
    and "target_size (self t) = (800, 600)" and "output_format (self t) = None"
  shows "fst (resize_image_try (demo_env l) (self t) file_c t) = Inr True"
  using assms
  by (simp add: resize_image_try_def resize_and_save_def action_defs demo_env_def path_join_def
      flatten_condition_def calculate_1920_1080 Let_def file_c_def chosen_format_def
      make_save_kwargs_def format_of_c_PNG upper_png pillow_writers_def)

lemma demo_file_broken_fails:
  assumes "input_folder (self t) = ''photos''"
  shows "fst (resize_image_try (demo_env l) (self t) file_broken t)
           = Inl (LibraryError ''cannot identify image file'')"
  using assms
  by (simp add: resize_image_try_def action_defs demo_env_def path_join_def file_broken_def)

lemma format_name_a: "output_filename demo file_a = ''a.jpg''"
  by (simp add: output_filename_def chosen_format_def demo_start file_a_def format_of_a_jpg stem_a)

lemma name_g_jpeg: "output_filename demo_jpeg file_g = ''g.jpeg''"
  by (simp add: output_filename_def chosen_format_def demo_jpeg_fields file_g_def stem_g)

lemma name_c_jpeg: "output_filename demo_jpeg file_c = ''c.jpeg''"
  by (simp add: output_filename_def chosen_format_def demo_jpeg_fields file_c_def stem_c)

lemma demo_fields_more: "quality demo = 85"
  by (simp add: demo_def init_def)

lemma demo_a_trace:
  "resize_image_try (demo_env l) demo file_a (start demo []) =
     (Inl (LibraryError ''KeyError: JPG''),
      \<lparr> self = demo, world = [],
        logged = [(INFO, Msg_processing ''a.jpg'' 1920 1080)],
        calls = [Call_open ''photos/a.jpg'',
                 Call_resize ((1920, 1080), ''RGB'') (800, 450),
                 Call_save ((800, 450), ''RGB'') ''photos/resized/a.jpg''
                   \<lparr> kw_format = ''JPG'', kw_quality = Some 85, kw_optimize = Some True \<rparr>] \<rparr>)"
  by (simp add: resize_image_try_def resize_and_save_def action_defs demo_env_def path_join_def
      flatten_condition_def calculate_1920_1080 demo_fields Let_def file_a_def chosen_format_def
      make_save_kwargs_def format_of_a_jpg upper_jpg pillow_writers_def demo_start
      demo_fields_more format_name_a[unfolded file_a_def] start_def)

lemma demo_g_trace:
  "resize_image_try (demo_env l) demo_jpeg file_g (start demo_jpeg []) =
     (Inr True,
      \<lparr> self = demo_jpeg\<lparr>processed := 1\<rparr>, world = [''photos/resized/g.jpeg''],
        logged = [(INFO, Msg_processing ''g.png'' 1920 1080),
                  (INFO, Msg_resized_to 800 450), (INFO, Msg_size 2048 2048),
                  (INFO, Msg_saved_as ''g.jpeg'')],
        calls = [Call_open ''photos/g.png'',
                 Call_new ''RGB'' (1920, 1080) (255, 255, 255),
                 Call_paste ((1920, 1080), ''RGB'') ((1920, 1080), ''LA'') None,
                 Call_resize ((1920, 1080), ''RGB'') (800, 450),
                 Call_save ((800, 450), ''RGB'') ''photos/resized/g.jpeg''
                   \<lparr> kw_format = ''JPEG'', kw_quality = Some 85, kw_optimize = Some True \<rparr>,
                 Call_getsize ''photos/g.png'',
                 Call_getsize ''photos/resized/g.jpeg''] \<rparr>)"
  by (simp add: resize_image_try_def resize_and_save_def flatten_onto_white_def
      action_defs demo_env_def path_join_def
      flatten_condition_def calculate_1920_1080 Let_def file_g_def chosen_format_def
      make_save_kwargs_def upper_jpeg pillow_writers_def demo_jpeg_fields
      name_g_jpeg[unfolded file_g_def] start_def)

lemma demo_c_trace:
  "resize_image_try (demo_env l) demo_jpeg file_c (start demo_jpeg []) =
     (Inr True,
      \<lparr> self = demo_jpeg\<lparr>processed := 1\<rparr>, world = [''photos/resized/c.jpeg''],
        logged = [(INFO, Msg_processing ''c.PNG'' 1920 1080),
                  (INFO, Msg_resized_to 800 450), (INFO, Msg_size 2048 2048),
                  (INFO, Msg_saved_as ''c.jpeg'')],
        calls = [Call_open ''photos/c.PNG'',
                 Call_new ''RGB'' (1920, 1080) (255, 255, 255),
                 Call_split ((1920, 1080), ''RGBA''),
                 Call_paste ((1920, 1080), ''RGB'') ((1920, 1080), ''RGBA'')
                   (Some ((1920, 1080), ''L'')),
                 Call_resize ((1920, 1080), ''RGB'') (800, 450),
                 Call_save ((800, 450), ''RGB'') ''photos/resized/c.jpeg''
                   \<lparr> kw_format = ''JPEG'', kw_quality = Some 85, kw_optimize = Some True \<rparr>,
                 Call_getsize ''photos/c.PNG'',
                 Call_getsize ''photos/resized/c.jpeg''] \<rparr>)"
  by (simp add: resize_image_try_def resize_and_save_def flatten_onto_white_def
      action_defs demo_env_def path_join_def
      flatten_condition_def calculate_1920_1080 Let_def file_c_def chosen_format_def
      make_save_kwargs_def upper_jpeg pillow_writers_def demo_jpeg_fields
      name_c_jpeg[unfolded file_c_def] start_def)

lemma demo_batch_counters:
  assumes "input_folder (self t) = ''photos''" and "maintain_aspect_ratio (self t)"
    and "target_size (self t) = (800, 600)" and "output_format (self t) = None"
  shows "self (process_images (demo_env l) n i [file_a, file_broken, file_c] t)
     = (self t)\<lparr>processed := processed (self t) + 1, failed := failed (self t) + 2\<rparr>"
proof -
  let ?E = "demo_env l"
  define t1 where "t1 = snd (logger INFO (Msg_progress i n) t)"
  define t2 where "t2 = snd (resize_image ?E file_a t1)"
  define t3 where "t3 = snd (logger INFO (Msg_progress (Suc i) n) t2)"
  define t4 where "t4 = snd (resize_image ?E file_broken t3)"
  define t5 where "t5 = snd (logger INFO (Msg_progress (Suc (Suc i)) n) t4)"
  define t6 where "t6 = snd (resize_image ?E file_c t5)"
  have t1: "self t1 = self t" by (simp add: t1_def logger_def)
  have "fst (resize_image_try ?E (self t1) file_a t1) = Inl (LibraryError ''KeyError: JPG'')"
    using assms t1 by (intro demo_file_a_fails) simp_all
  then have t2: "self t2 = (self t)\<lparr>failed := failed (self t) + 1\<rparr>"
    using t1 by (simp add: t2_def resize_image_self)
  have t3: "self t3 = self t2" by (simp add: t3_def logger_def)
  have "fst (resize_image_try ?E (self t3) file_broken t3)
          = Inl (LibraryError ''cannot identify image file'')"
    using assms(1) t3 t2 by (intro demo_file_broken_fails) simp
  then have t4: "self t4 = (self t)\<lparr>failed := failed (self t) + 2\<rparr>"
    using t3 t2 by (simp add: t4_def resize_image_self)
  have t5: "self t5 = self t4" by (simp add: t5_def logger_def)
  have "fst (resize_image_try ?E (self t5) file_c t5) = Inr True"
    using assms t5 t4 by (intro demo_file_c_succeeds) simp_all
  then have t6: "self t6 = (self t)\<lparr>processed := processed (self t) + 1, failed := failed (self t) + 2\<rparr>"
    using t5 t4 by (simp add: t6_def resize_image_self)
  have "process_images ?E n i [file_a, file_broken, file_c] t = t6"
    by (simp add: t1_def t2_def t3_def t4_def t5_def t6_def)
  then show ?thesis using t6 by simp
qed

lemma collect_batch: "collect_image_files [file_a, file_broken, file_c] [] = [file_a, file_broken, file_c]"
  by code_simp

lemma demo_batch_result:
  "self (snd (process_batch (demo_env [file_a, file_broken, file_c]) (start demo [])))
     = demo\<lparr>processed := 1, failed := 2\<rparr>"
proof -
  let ?E = "demo_env [file_a, file_broken, file_c]"
  let ?s = "start demo [] :: (string list, (int \<times> int) \<times> string) run"
  have mk: "fs_mkdir ?E (world ?s) (output_folder (self ?s)) = (Inr (), [])"
    by (simp add: demo_env_def demo_start)
  have ls: "fs_iterdir ?E [] (input_folder (self ?s)) = Inr [file_a, file_broken, file_c]"
    by (simp add: demo_env_def)
  obtain t where t: "self t = demo"
    and pb: "process_batch ?E ?s =
           print_summary (process_images ?E (length [file_a, file_broken, file_c]) 1
                            [file_a, file_broken, file_c] t)"
    using process_batch_run[OF mk ls, unfolded collect_batch]
    by (auto simp: demo_start simp del: process_images.simps)
  have c: "input_folder (self t) = ''photos''" "maintain_aspect_ratio (self t)"
    "target_size (self t) = (800, 600)" "output_format (self t) = None"
    using t by (simp_all add: demo_start demo_fields)
  show ?thesis
    using t by (simp add: pb print_summary_run demo_batch_counters[OF c] demo_start
        del: process_images.simps)
qed

section \<open>The batch\<close>

lemma process_batch_aborted:
  assumes "fs_mkdir E (world s) (output_folder (self s)) = (Inl e, w)
         \<or> (fs_mkdir E (world s) (output_folder (self s)) = (Inr (), w)
            \<and> fs_iterdir E w (input_folder (self s)) = Inl e)"
  shows "fst (process_batch E s) = Inl e"
    and "self (snd (process_batch E s)) = self s"
    and "calls (snd (process_batch E s)) = calls s"
proof -
  let ?s1 = "snd (announce s)"
  have a: "fst (announce s) = Inr ()" by (simp add: announce_run)
  have p: "process_batch E s
      = and_then (create_output_folder E) (\<lambda>_. and_then (get_image_files E) (\<lambda>image_files.
          if image_files = [] then logger WARNING Msg_no_supported_files
          else and_then (\<lambda>s. (Inr (), process_images E (length image_files) 1 image_files s))
                 (\<lambda>_. print_summary))) ?s1"
    unfolding process_batch_def by (simp only: and_then_fst_Inr[of announce s, OF a])
  from assms have "fst (process_batch E s) = Inl e \<and> self (snd (process_batch E s)) = self s
      \<and> calls (snd (process_batch E s)) = calls s"
  proof
    assume "fs_mkdir E (world s) (output_folder (self s)) = (Inl e, w)"
    then have "create_output_folder E ?s1 = (Inl e, ?s1\<lparr>world := w\<rparr>)"
      by (simp add: create_output_folder_def and_then_def announce_run)
    then show ?thesis by (simp add: p and_then_def announce_run)
  next
    assume h: "fs_mkdir E (world s) (output_folder (self s)) = (Inr (), w)
            \<and> fs_iterdir E w (input_folder (self s)) = Inl e"
    let ?s2 = "snd (create_output_folder E ?s1)"
    have mk1: "fs_mkdir E (world ?s1) (output_folder (self ?s1)) = (Inr (), w)"
      using h by (simp add: announce_run)
    note c = create_output_folder_run[OF mk1]
    have g: "get_image_files E ?s2 = (Inl e, ?s2)"
      using h by (simp add: get_image_files_def and_then_def c announce_run)
    have "process_batch E s = (Inl e, ?s2)"
      by (simp only: p and_then_fst_Inr[of "create_output_folder E" ?s1, OF c(1)]
          and_then_Inl[of "get_image_files E" ?s2, OF g])
    then show ?thesis by (simp add: c announce_run)
  qed
  then show "fst (process_batch E s) = Inl e" and "self (snd (process_batch E s)) = self s"
    and "calls (snd (process_batch E s)) = calls s"
    by simp_all
qed

lemma process_batch_counts_opened:
  "processed (self (snd (process_batch E s))) + failed (self (snd (process_batch E s)))
     = processed (self s) + failed (self s)
       + length (filter is_open (new_calls s (snd (process_batch E s))))"
proof (cases "fs_mkdir E (world s) (output_folder (self s))")
  case (Pair r w)
  show ?thesis
  proof (cases r)
    case (Inl e)
    from process_batch_aborted(2,3)[of E s e w] Pair Inl
    show ?thesis by (simp add: new_calls_def)
  next
    case (Inr u)
    then have mk: "fs_mkdir E (world s) (output_folder (self s)) = (Inr (), w)" using Pair by simp
    show ?thesis
    proof (cases "fs_iterdir E w (input_folder (self s))")
      case (Inl e)
      from process_batch_aborted(2,3)[of E s e w] mk Inl
      show ?thesis by (simp add: new_calls_def)
    next
      case (Inr listing)
      note c = process_batch_counters[OF mk Inr]
      obtain a b where "self (snd (process_batch E s)) = (self s)\<lparr>processed := a, failed := b\<rparr>"
        "a + b = processed (self s) + failed (self s) + length (collect_image_files listing [])"
        using c(2) by blast
      then show ?thesis by (simp add: c(3))
    qed
  qed
qed

subsection \<open>Which counter a file moves\<close>

text \<open>
  The handler of \<^verbatim>\<open>resize_image\<close> counts a file as failed exactly when the body of the
  \<^verbatim>\<open>try\<close> raised, whatever the exception and whichever step raised it: opening, the
  size calculation, the resampling or the save.
\<close>

lemma resize_image_failure_counted:
  assumes "fst (resize_image_try E (self s) image_path s) = Inl e"
  shows "fst (resize_image E image_path s) = False"
    and "self (snd (resize_image E image_path s)) = (self s)\<lparr>failed := failed (self s) + 1\<rparr>"
    and "logged (snd (resize_image E image_path s))
           = logged (snd (resize_image_try E (self s) image_path s))
             @ [(ERROR, Msg_failed_to_process (entry_name image_path) e)]"
proof -
  obtain s' where "resize_image_try E (self s) image_path s = (Inl e, s')"
    using assms by (cases "resize_image_try E (self s) image_path s") auto
  then show "fst (resize_image E image_path s) = False"
    and "logged (snd (resize_image E image_path s))
           = logged (snd (resize_image_try E (self s) image_path s))
             @ [(ERROR, Msg_failed_to_process (entry_name image_path) e)]"
    by (simp_all add: resize_image_def action_defs)
  show "self (snd (resize_image E image_path s)) = (self s)\<lparr>failed := failed (self s) + 1\<rparr>"
    using assms by (simp add: resize_image_self)
qed

lemma resize_image_success_counted:
  assumes "fst (resize_image_try E (self s) image_path s) = Inr r"
  shows "fst (resize_image E image_path s) = r"
    and "self (snd (resize_image E image_path s)) = (self s)\<lparr>processed := processed (self s) + 1\<rparr>"
    and "logged (snd (resize_image E image_path s))
           = logged (snd (resize_image_try E (self s) image_path s))"
proof -
  obtain s' where "resize_image_try E (self s) image_path s = (Inr r, s')"
    using assms by (cases "resize_image_try E (self s) image_path s") auto
  then show "fst (resize_image E image_path s) = r"
    and "logged (snd (resize_image E image_path s))
           = logged (snd (resize_image_try E (self s) image_path s))"
    by (simp_all add: resize_image_def)
  show "self (snd (resize_image E image_path s)) = (self s)\<lparr>processed := processed (self s) + 1\<rparr>"
    using assms by (simp add: resize_image_self)
qed

lemma resize_image_try_open_error:
  assumes "pil_open E (world s) (path_join (input_folder slf) (entry_name image_path)) = Inl e"
  shows "fst (resize_image_try E slf image_path s) = Inl e"
  using assms by (simp add: resize_image_try_def action_defs)

lemma resize_image_try_size_error:
  assumes "pil_open E (world s) (path_join (input_folder slf) (entry_name image_path)) = Inr img"
    and "\<not> flatten_condition slf (pil_mode E img)"
    and "calculate_new_size slf (pil_size E img) = Inl e"
  shows "fst (resize_image_try E slf image_path s) = Inl e"
  using assms by (simp add: resize_image_try_def resize_and_save_def action_defs)

lemma resize_image_try_save_error:
  assumes "pil_open E (world s) (path_join (input_folder slf) (entry_name image_path)) = Inr img"
    and "\<not> flatten_condition slf (pil_mode E img)"
    and "calculate_new_size slf (pil_size E img) = Inr new_size"
    and "pil_resize E img new_size = Inr resized_img"
    and "pil_save E (world s) resized_img
           (path_join (output_folder slf) (output_filename slf image_path))
           (make_save_kwargs slf (chosen_format slf image_path)) = (Inl e, w)"
  shows "fst (resize_image_try E slf image_path s) = Inl e"
  using assms by (simp add: resize_image_try_def resize_and_save_def action_defs Let_def)

text \<open>
  C4: every enumerated file moves exactly one of the counters \<open>processed\<close> and \<open>failed\<close>,
  an error on one file does not stop the batch, and \<open>processed + failed\<close> ends as the
  number of files; a batch of three files of which one cannot be decoded is to end with
  \<open>processed = 2\<close> and \<open>failed = 1\<close>. The counting is as claimed
  (\<open>process_batch_counters\<close>, \<open>resize_image_failure_counted\<close>,
  \<open>resize_image_success_counted\<close>). The batch \<^verbatim>\<open>a.jpg\<close>, \<^verbatim>\<open>broken.jpg\<close>, \<^verbatim>\<open>c.PNG\<close> with no
  output format does not end that way: \<^verbatim>\<open>broken.jpg\<close> cannot be decoded, and \<^verbatim>\<open>a.jpg\<close>,
  which decodes and is resized to 800 by 450, is saved with \<^verbatim>\<open>format='JPG'\<close> (line 143
  upper-cases the extension), a name for which Pillow has no writer. The handler logs
  the \<^verbatim>\<open>KeyError\<close> and counts the file as failed, so the batch ends with \<open>processed = 1\<close>
  and \<open>failed = 2\<close>.
\<close>

theorem process_batch_counts_jpg_file_as_failed:
  "processed (self (snd (process_batch (demo_env [file_a, file_broken, file_c])
                           (start demo [])))) = 1
   \<and> failed (self (snd (process_batch (demo_env [file_a, file_broken, file_c])
                          (start demo [])))) = 2
   \<and> resize_image (demo_env [file_a, file_broken, file_c]) file_a (start demo []) =
       (False,
        \<lparr> self = demo\<lparr>failed := 1\<rparr>, world = [],
          logged = [(INFO, Msg_processing ''a.jpg'' 1920 1080),
                    (ERROR, Msg_failed_to_process ''a.jpg'' (LibraryError ''KeyError: JPG''))],
          calls = [Call_open ''photos/a.jpg'',
                   Call_resize ((1920, 1080), ''RGB'') (800, 450),
                   Call_save ((800, 450), ''RGB'') ''photos/resized/a.jpg''
                     \<lparr> kw_format = ''JPG'', kw_quality = Some 85, kw_optimize = Some True \<rparr>] \<rparr>)"
proof (intro conjI)
  show "processed (self (snd (process_batch (demo_env [file_a, file_broken, file_c])
                                (start demo [])))) = 1"
    by (simp add: demo_batch_result)
  show "failed (self (snd (process_batch (demo_env [file_a, file_broken, file_c])
                             (start demo [])))) = 2"
    by (simp add: demo_batch_result)
  have s: "self (start demo [] :: (string list, (int \<times> int) \<times> string) run) = demo"
    by (simp add: demo_start)
  show "resize_image (demo_env [file_a, file_broken, file_c]) file_a (start demo []) =
       (False,
        \<lparr> self = demo\<lparr>failed := 1\<rparr>, world = [],
          logged = [(INFO, Msg_processing ''a.jpg'' 1920 1080),
                    (ERROR, Msg_failed_to_process ''a.jpg'' (LibraryError ''KeyError: JPG''))],
          calls = [Call_open ''photos/a.jpg'',
                   Call_resize ((1920, 1080), ''RGB'') (800, 450),
                   Call_save ((800, 450), ''RGB'') ''photos/resized/a.jpg''
                     \<lparr> kw_format = ''JPG'', kw_quality = Some 85, kw_optimize = Some True \<rparr>] \<rparr>)"
    unfolding resize_image_def s demo_a_trace
    by (simp add: action_defs file_a_def demo_start)
qed

section \<open>Flattening\<close>

text \<open>
  What the block under the flattening condition does, by the mode of the decoded image,
  when creating the background (and converting, and splitting) succeeds. An RGBA image,
  and a palette image after its conversion to RGBA, is pasted with its alpha band as
  the mask, so the white background shows where the image is transparent. For the
  third mode of the condition, LA, the mask expression of line 127
  (\<^verbatim>\<open>img.split()[-1] if img.mode == 'RGBA' else None\<close>) gives \<^verbatim>\<open>None\<close>: the image is pasted
  over the whole background and its alpha band is not used.
\<close>

lemma flatten_onto_white_LA:
  assumes "pil_mode E img = ''LA''"
    and "pil_new E ''RGB'' (pil_size E img) (255, 255, 255) = Inr background"
  shows "flatten_onto_white E img s =
     (pil_paste E background img None,
      s\<lparr>calls := calls s @ [Call_new ''RGB'' (pil_size E img) (255, 255, 255),
                            Call_paste background img None]\<rparr>)"
  using assms by (simp add: flatten_onto_white_def action_defs)

lemma flatten_onto_white_RGBA:
  assumes "pil_mode E img = ''RGBA''"
    and "pil_new E ''RGB'' (pil_size E img) (255, 255, 255) = Inr background"
    and "pil_split_last E img = Inr band"
  shows "flatten_onto_white E img s =
     (pil_paste E background img (Some band),
      s\<lparr>calls := calls s @ [Call_new ''RGB'' (pil_size E img) (255, 255, 255),
                            Call_split img,
                            Call_paste background img (Some band)]\<rparr>)"
  using assms by (simp add: flatten_onto_white_def action_defs)

lemma flatten_onto_white_P:
  assumes "pil_mode E img = ''P''"
    and "pil_new E ''RGB'' (pil_size E img) (255, 255, 255) = Inr background"
    and "pil_convert E img ''RGBA'' = Inr converted"
    and "pil_mode E converted = ''RGBA''"
    and "pil_split_last E converted = Inr band"
  shows "flatten_onto_white E img s =
     (pil_paste E background converted (Some band),
      s\<lparr>calls := calls s @ [Call_new ''RGB'' (pil_size E img) (255, 255, 255),
                            Call_convert img ''RGBA'',
                            Call_split converted,
                            Call_paste background converted (Some band)]\<rparr>)"
  using assms by (simp add: flatten_onto_white_def action_defs)

text \<open>
  C7: flattening onto an opaque white background before resizing is to be performed
  exactly when the output format is jpg or jpeg and the mode of the decoded image is
  RGBA, LA or P. For RGBA and P the source does so. For LA it enters the block
  (the comment at line 124 says \<^verbatim>\<open># Create a white background\<close>) but pastes without a
  mask. With the output format jpeg, the run of \<^verbatim>\<open>resize_image\<close> on the LA image
  \<^verbatim>\<open>g.png\<close> creates the background and pastes the image onto it with the mask \<^verbatim>\<open>None\<close>;
  the run on the RGBA image \<^verbatim>\<open>c.PNG\<close> splits off the alpha band and pastes with that
  band as the mask.
\<close>

theorem flattening_pastes_LA_image_without_mask:
  "calls (snd (resize_image (demo_env [file_g, file_c]) file_g (start demo_jpeg [])))
     = [Call_open ''photos/g.png'',
        Call_new ''RGB'' (1920, 1080) (255, 255, 255),
        Call_paste ((1920, 1080), ''RGB'') ((1920, 1080), ''LA'') None,
        Call_resize ((1920, 1080), ''RGB'') (800, 450),
        Call_save ((800, 450), ''RGB'') ''photos/resized/g.jpeg''
          \<lparr> kw_format = ''JPEG'', kw_quality = Some 85, kw_optimize = Some True \<rparr>,
        Call_getsize ''photos/g.png'',
        Call_getsize ''photos/resized/g.jpeg'']
   \<and> calls (snd (resize_image (demo_env [file_g, file_c]) file_c (start demo_jpeg [])))
     = [Call_open ''photos/c.PNG'',
        Call_new ''RGB'' (1920, 1080) (255, 255, 255),
        Call_split ((1920, 1080), ''RGBA''),
        Call_paste ((1920, 1080), ''RGB'') ((1920, 1080), ''RGBA'') (Some ((1920, 1080), ''L'')),
        Call_resize ((1920, 1080), ''RGB'') (800, 450),
        Call_save ((800, 450), ''RGB'') ''photos/resized/c.jpeg''
          \<lparr> kw_format = ''JPEG'', kw_quality = Some 85, kw_optimize = Some True \<rparr>,
        Call_getsize ''photos/c.PNG'',
        Call_getsize ''photos/resized/c.jpeg'']"
proof -
  have s: "self (start demo_jpeg [] :: (string list, (int \<times> int) \<times> string) run) = demo_jpeg"
    by (simp add: start_def)
  show ?thesis
    unfolding resize_image_calls s demo_g_trace demo_c_trace by simp
qed

section \<open>The skipped counter\<close>

text \<open>
  C9: the constructor sets \<open>skipped\<close> to 0 and no method changes it: not
  \<^verbatim>\<open>create_output_folder\<close>, \<^verbatim>\<open>get_image_files\<close>, \<^verbatim>\<open>resize_image\<close>, \<^verbatim>\<open>print_summary\<close> or
  \<^verbatim>\<open>process_batch\<close>, however the run goes. So after a batch run on a resizer with
  \<open>skipped = 0\<close> it is still 0, and neither the batch nor the summary logs the line about
  skipped images.
\<close>

theorem skipped_is_never_incremented:
  "skipped (init a b c d e q) = 0
   \<and> skipped (self (snd (create_output_folder E s))) = skipped (self s)
   \<and> skipped (self (snd (get_image_files E s))) = skipped (self s)
   \<and> skipped (self (snd (resize_image E image_path s))) = skipped (self s)
   \<and> skipped (self (snd (print_summary s))) = skipped (self s)
   \<and> skipped (self (snd (process_batch E s))) = skipped (self s)
   \<and> (skipped (self s) = 0 \<longrightarrow>
        (\<forall>l k. (l, Msg_skipped k) \<notin> set (new_logged s (snd (process_batch E s))))
      \<and> (\<forall>l k. (l, Msg_skipped k) \<notin> set (new_logged s (snd (print_summary s)))))"
proof (intro conjI impI)
  show "skipped (init a b c d e q) = 0" by (simp add: init_def)
  show "skipped (self (snd (create_output_folder E s))) = skipped (self s)"
    using keeps_create_output_folder[of skipped E] by (simp add: keeps_def)
  show "skipped (self (snd (get_image_files E s))) = skipped (self s)"
    using keeps_get_image_files[of skipped E] by (simp add: keeps_def)
  show "skipped (self (snd (resize_image E image_path s))) = skipped (self s)"
    by (rule skipped_resize_image)
  show "skipped (self (snd (print_summary s))) = skipped (self s)"
    by (simp add: print_summary_run)
  show "skipped (self (snd (process_batch E s))) = skipped (self s)"
    using keeps_skipped_process_batch[of E] by (simp add: keeps_def)
next
  assume z: "skipped (self s) = 0"
  obtain ls where "logged (snd (process_batch E s)) = logged s @ ls"
      "\<forall>x\<in>set ls. \<forall>k. snd x \<noteq> Msg_skipped k"
    using never_skips_process_batch[of E, unfolded never_skips_def, rule_format, OF z] by blast
  then show "\<forall>l k. (l, Msg_skipped k) \<notin> set (new_logged s (snd (process_batch E s)))"
    by (auto simp: new_logged_def)
  obtain ks where "logged (snd (print_summary s)) = logged s @ ks"
      "\<forall>x\<in>set ks. \<forall>k. snd x \<noteq> Msg_skipped k"
    using never_skips_print_summary[unfolded never_skips_def, rule_format, OF z] by blast
  then show "\<forall>l k. (l, Msg_skipped k) \<notin> set (new_logged s (snd (print_summary s)))"
    by (auto simp: new_logged_def)
qed

theorem skipped_is_never_incremented_witness:
  "skipped (self (start demo [] :: (string list, (int \<times> int) \<times> string) run)) = 0
   \<and> skipped (self (snd (process_batch (demo_env [file_a, file_broken, file_c]) (start demo [])))) = 0
   \<and> (\<forall>l k. (l, Msg_skipped k) \<notin> set (new_logged (start demo [])
          (snd (process_batch (demo_env [file_a, file_broken, file_c]) (start demo [])))))"
proof -
  let ?s = "start demo [] :: (string list, (int \<times> int) \<times> string) run"
  have z: "skipped (self ?s) = 0" by (simp add: demo_start)
  note t = skipped_is_never_incremented[of _ _ _ _ _ _ "demo_env [file_a, file_broken, file_c]" ?s]
  show ?thesis using t z by simp
qed

end
